theory Spec2Isabelle
  imports Complex_Main "HOL-Library.Word" "HOL-Library.Log_Nat" "HOL-Library.Monad_Syntax"
begin

unbundle bit_operations_syntax

section \<open>Machine types\<close>

type_synonym u8 = "8 word"
type_synonym u32 = "32 word"
type_synonym u64 = "64 word"

subsection \<open>Binary64 arithmetic\<close>

text \<open>
  A C++ \<^verbatim>\<open>double\<close> is either a finite binary64 number, kept as the rational it denotes,
  or not finite (an infinity or a NaN). Every arithmetic result is the exact result rounded to
  the nearest binary64 number, ties to even: 53 significant bits, exponents from \<open>-1022\<close>
  (below that the spacing stays \<open>2 powi -1074\<close>), and a rounded magnitude of \<open>2 ^ 1024\<close>
  or more is an infinity. Signed zeros are not distinguished.
\<close>

datatype double = Finite rat | NonFinite

definition flog2 :: "rat \<Rightarrow> int" where
  \<comment> \<open>the exponent \<open>e\<close> with \<open>2 powi e \<le> x < 2 powi (e + 1)\<close>, for positive \<open>x\<close>\<close>
  "flog2 x = (let (p, q) = quotient_of x; e = bitlen p - bitlen q
              in if 2 powi e \<le> x then e else e - 1)"

definition rne :: "rat \<Rightarrow> int" where
  \<comment> \<open>nearest integer, ties to even\<close>
  "rne q = (let f = \<lfloor>q\<rfloor>; r = q - of_int f
            in if r < 1 / 2 then f else if 1 / 2 < r then f + 1
               else if even f then f else f + 1)"

definition ulp :: "rat \<Rightarrow> rat" where
  \<comment> \<open>spacing of the binary64 numbers around \<open>x\<close>\<close>
  "ulp x = 2 powi (max (flog2 \<bar>x\<bar>) (- 1022) - 52)"

definition fl :: "rat \<Rightarrow> rat" where
  "fl x = (if x = 0 then 0 else of_int (rne (x / ulp x)) * ulp x)"

definition dbl :: "rat \<Rightarrow> double" where
  "dbl x = (let y = fl x in if \<bar>y\<bar> < 2 ^ 1024 then Finite y else NonFinite)"

fun dmul :: "double \<Rightarrow> double \<Rightarrow> double" where
  "dmul (Finite x) (Finite y) = dbl (x * y)"
| "dmul _ _ = NonFinite"

fun dsub :: "double \<Rightarrow> double \<Rightarrow> double" where
  "dsub (Finite x) (Finite y) = dbl (x - y)"
| "dsub _ _ = NonFinite"

text \<open>
  Division by zero gives an infinity or a NaN. Every divisor in this driver is a converted
  unsigned integer, so the case of a non-finite divisor never arises.
\<close>

fun ddiv :: "double \<Rightarrow> double \<Rightarrow> double" where
  "ddiv (Finite x) (Finite y) = (if y = 0 then NonFinite else dbl (x / y))"
| "ddiv _ _ = NonFinite"

fun dfloor :: "double \<Rightarrow> double" where
  "dfloor (Finite x) = Finite (of_int \<lfloor>x\<rfloor>)"
| "dfloor NonFinite = NonFinite"

text \<open>Every 8-bit and 32-bit unsigned integer is a binary64 number: the conversions are exact.\<close>

definition u8_to_double :: "u8 \<Rightarrow> double" where
  "u8_to_double w = Finite (of_nat (unat w))"

definition u32_to_double :: "u32 \<Rightarrow> double" where
  "u32_to_double w = Finite (of_nat (unat w))"

text \<open>
  Conversion of a \<^verbatim>\<open>double\<close> to \<^verbatim>\<open>uint32_t\<close> truncates towards zero. C++ leaves it
  undefined when the truncated value does not fit or the operand is not finite: \<open>None\<close>.
\<close>

fun double_to_u32 :: "double \<Rightarrow> u32 option" where
  "double_to_u32 (Finite x) =
     (let t = (if 0 \<le> x then \<lfloor>x\<rfloor> else \<lceil>x\<rceil>)
      in if 0 \<le> t \<and> t < 2 ^ 32 then Some (word_of_int t) else None)"
| "double_to_u32 NonFinite = None"

section \<open>Register map (si5351.h)\<close>

definition PH000 :: u8 where "PH000 = 0"
definition PH090 :: u8 where "PH090 = 1"
definition PH180 :: u8 where "PH180 = 2"
definition PH270 :: u8 where "PH270 = 3"

definition SI_CLK_OE :: u8 where "SI_CLK_OE = 3"
definition SI_CLK0_CTL :: u8 where "SI_CLK0_CTL = 16"
definition SI_CLK1_CTL :: u8 where "SI_CLK1_CTL = 17"
definition SI_CLK2_CTL :: u8 where "SI_CLK2_CTL = 18"
definition SI_SYNTH_PLLA :: u8 where "SI_SYNTH_PLLA = 26"
definition SI_SYNTH_PLLB :: u8 where "SI_SYNTH_PLLB = 34"
definition SI_SYNTH_MS0 :: u8 where "SI_SYNTH_MS0 = 42"
definition SI_SYNTH_MS1 :: u8 where "SI_SYNTH_MS1 = 50"
definition SI_SYNTH_MS2 :: u8 where "SI_SYNTH_MS2 = 58"
definition SI_SS_EN :: u8 where "SI_SS_EN = 149"
definition SI_CLK0_PHOFF :: u8 where "SI_CLK0_PHOFF = 165"
definition SI_CLK1_PHOFF :: u8 where "SI_CLK1_PHOFF = 166"
definition SI_PLL_RESET :: u8 where "SI_PLL_RESET = 177"

definition SI_CLK_INT :: u8 where "SI_CLK_INT = 0x40"
definition SI_CLK_PLLB :: u8 where "SI_CLK_PLLB = 0x20"
definition SI_CLK_INV :: u8 where "SI_CLK_INV = 0x10"
definition SI_CLK_SRC_MS :: u8 where "SI_CLK_SRC_MS = 0x0C"
definition SI_CLK_IDRV_4mA :: u8 where "SI_CLK_IDRV_4mA = 0x01"

definition SI_VCO_LO :: nat where "SI_VCO_LO = 400000000"
definition SI_VCO_HI :: nat where "SI_VCO_HI = 900000000"
definition SI_PLL_C :: u32 where "SI_PLL_C = 1000000"

section \<open>Driver state\<close>

record vfo_t =
  freq :: u32
  phase :: u8
  ri :: u8
  msi :: u8
  msn :: double

text \<open>
  The I2C bus is outside the driver. It is kept as the register file of the device at address
  \<open>0x60\<close>, a flag telling whether a requested byte arrives, and the list of the transactions
  the driver has issued, oldest first.
\<close>

datatype xfer = Write u8 "u8 list" | Read u8

record wire =
  regs :: "u8 \<Rightarrow> u8"
  answers :: bool
  issued :: "xfer list"

text \<open>
  The array \<^verbatim>\<open>_vfo[2]\<close> is a function of the index; the driver reads and writes indices
  0 and 1 only, every other index being turned away before the access.
\<close>

record si5351 =
  xtal :: u32
  vfo :: "nat \<Rightarrow> vfo_t"
  bus :: wire

section \<open>I2C communication functions\<close>

fun store :: "(u8 \<Rightarrow> u8) \<Rightarrow> u8 \<Rightarrow> u8 list \<Rightarrow> (u8 \<Rightarrow> u8)" where
  \<comment> \<open>the device takes the bytes of one transaction into consecutive registers\<close>
  "store m r [] = m"
| "store m r (b # bs) = store (m(r := b)) (r + 1) bs"

definition transmit :: "u8 \<Rightarrow> u8 list \<Rightarrow> wire \<Rightarrow> wire" where
  \<comment> \<open>\<^verbatim>\<open>beginTransmission\<close>, the register address, the data bytes, \<^verbatim>\<open>endTransmission\<close>\<close>
  "transmit reg bytes w =
     w\<lparr>regs := (if answers w then store (regs w) reg bytes else regs w),
       issued := issued w @ [Write reg bytes]\<rparr>"

definition wr :: "u8 \<Rightarrow> u8 \<Rightarrow> si5351 \<Rightarrow> si5351" where
  "wr reg val s = s\<lparr>bus := transmit reg [val] (bus s)\<rparr>"

definition wrBulk :: "u8 \<Rightarrow> u8 list \<Rightarrow> u8 \<Rightarrow> si5351 \<Rightarrow> si5351" where
  "wrBulk reg data len s = s\<lparr>bus := transmit reg (take (unat len) data) (bus s)\<rparr>"

definition rd :: "u8 \<Rightarrow> si5351 \<Rightarrow> u8 \<times> si5351" where
  "rd reg s =
     (if answers (bus s) then regs (bus s) reg else 0xFF,
      s\<lparr>bus := (bus s)\<lparr>issued := issued (bus s) @ [Read reg]\<rparr>\<rparr>)"

definition rDivToCode :: "u8 \<Rightarrow> u8" where
  "rDivToCode r =
     (if r = 1 then 0 else if r = 2 then 1 else if r = 4 then 2 else if r = 8 then 3
      else if r = 16 then 4 else if r = 32 then 5 else if r = 64 then 6
      else if r = 128 then 7 else 0)"

section \<open>Internal configuration functions\<close>

subsection \<open>PLL multiplier\<close>

definition setMSN_A :: "double \<Rightarrow> u32 option" where
  \<comment> \<open>\<^verbatim>\<open>uint32_t A = (uint32_t)floor(msn);\<close>\<close>
  "setMSN_A m = double_to_u32 (dfloor m)"

definition setMSN_B :: "double \<Rightarrow> u32 \<Rightarrow> u32 option" where
  \<comment> \<open>\<^verbatim>\<open>uint32_t B = (uint32_t)((msn - (double)A) * (double)SI_PLL_C);\<close>\<close>
  "setMSN_B m A = double_to_u32 (dmul (dsub m (u32_to_double A)) (u32_to_double SI_PLL_C))"

definition setMSN_tmp :: "u32 \<Rightarrow> u32 option" where
  \<comment> \<open>\<^verbatim>\<open>uint32_t tmp = (uint32_t)floor((double)(128 * B) / (double)SI_PLL_C);\<close>\<close>
  "setMSN_tmp B =
     double_to_u32 (dfloor (ddiv (u32_to_double (128 * B)) (u32_to_double SI_PLL_C)))"

definition setMSN_buf :: "u32 \<Rightarrow> u32 \<Rightarrow> u32 \<Rightarrow> u8 list" where
  "setMSN_buf P1 P2 P3 =
     [ucast (drop_bit 8 P3 AND 0xFF),
      ucast (P3 AND 0xFF),
      ucast (drop_bit 16 P1 AND 0x03),
      ucast (drop_bit 8 P1 AND 0xFF),
      ucast (P1 AND 0xFF),
      ucast ((drop_bit 12 P3 AND 0xF0) OR (drop_bit 16 P2 AND 0x0F)),
      ucast (drop_bit 8 P2 AND 0xFF),
      ucast (P2 AND 0xFF)]"

definition setMSN_image :: "double \<Rightarrow> u8 list option" where
  \<comment> \<open>the array \<^verbatim>\<open>buf\<close> that \<^verbatim>\<open>_setMSN\<close> hands to \<^verbatim>\<open>_wrBulk\<close>\<close>
  "setMSN_image m =
     do {
       A \<leftarrow> setMSN_A m;
       B \<leftarrow> setMSN_B m A;
       tmp \<leftarrow> setMSN_tmp B;
       let P3 = SI_PLL_C;
       let P1 = 128 * A + tmp - 512;
       let P2 = 128 * B - SI_PLL_C * tmp;
       Some (setMSN_buf P1 P2 P3)
     }"

definition setMSN :: "u8 \<Rightarrow> double \<Rightarrow> si5351 \<Rightarrow> si5351 option" where
  "setMSN pllIdx m s =
     do {
       buf \<leftarrow> setMSN_image m;
       Some (wrBulk (if pllIdx = 0 then SI_SYNTH_PLLA else SI_SYNTH_PLLB) buf 8 s)
     }"

subsection \<open>MultiSynth divider, integer mode\<close>

definition setMSI_buf :: "u8 \<Rightarrow> u8 \<Rightarrow> u8 list" where
  "setMSI_buf msiEven rDivLog2 =
     (let P1 = 128 * (ucast msiEven :: u32) - 512;
          Rbits = (push_bit 4 (rDivLog2 AND 0x07) :: u8)
      in [0x00, 0x01,
          ucast (drop_bit 16 P1 AND 0x03) OR Rbits,
          ucast (drop_bit 8 P1 AND 0xFF),
          ucast (P1 AND 0xFF),
          0x00, 0x00, 0x00])"

definition setMSI :: "u8 \<Rightarrow> u8 \<Rightarrow> u8 \<Rightarrow> si5351 \<Rightarrow> si5351" where
  "setMSI clkIdx msiEven rDivLog2 s =
     wrBulk (if clkIdx = 0 then SI_SYNTH_MS0 else if clkIdx = 1 then SI_SYNTH_MS1 else SI_SYNTH_MS2)
       (setMSI_buf msiEven rDivLog2) 8 s"

subsection \<open>Frequency planning\<close>

definition evaluate_ri :: "u32 \<Rightarrow> u32" where
  "evaluate_ri freqHz =
     (if freqHz < 1000000 then 128 else if freqHz < 3000000 then 32 else 1)"

definition evaluate_clamp :: "u32 \<Rightarrow> u32" where
  \<comment> \<open>the four \<^verbatim>\<open>if\<close> statements on \<^verbatim>\<open>tentative\<close>\<close>
  "evaluate_clamp tentative =
     (let tentative = (if tentative < 4 then 4 else tentative);
          tentative = (if 126 < tentative then 126 else tentative);
          tentative = (if tentative AND 1 \<noteq> 0 then tentative + 1 else tentative)
      in if 126 < tentative then 126 else tentative)"

definition evaluate_msi :: "u32 \<Rightarrow> u32 \<Rightarrow> u8" where
  "evaluate_msi freqHz ri' =
     (if freqHz < 6000000 then 126
      else
        let tentative = (ucast ((700000000 :: u64) div (ucast freqHz * ucast ri')) :: u32)
        in ucast (evaluate_clamp tentative))"

definition evaluate_fvco :: "u32 \<Rightarrow> u8 \<Rightarrow> u32 \<Rightarrow> u64" where
  \<comment> \<open>\<^verbatim>\<open>uint64_t fvco = (uint64_t)freqHz * (uint64_t)msi * (uint64_t)ri;\<close>\<close>
  "evaluate_fvco freqHz msi' ri' = ucast freqHz * ucast msi' * ucast ri'"

definition evaluate_msn :: "u8 \<Rightarrow> u32 \<Rightarrow> u32 \<Rightarrow> u32 \<Rightarrow> double" where
  "evaluate_msn msi' ri' freqHz xtal' =
     ddiv (dmul (dmul (u8_to_double msi') (u32_to_double ri')) (u32_to_double freqHz))
       (u32_to_double xtal')"

definition evaluate :: "u8 \<Rightarrow> u32 \<Rightarrow> si5351 \<Rightarrow> si5351" where
  "evaluate vfoIdx freqHz s =
     (if 1 < vfoIdx \<or> freq (vfo s (unat vfoIdx)) = freqHz then s
      else
        let ri' = evaluate_ri freqHz;
            msi' = evaluate_msi freqHz ri';
            fvco = evaluate_fvco freqHz msi' ri';
            s = (if unat fvco < SI_VCO_LO \<or> SI_VCO_HI < unat fvco
                 then s \<comment> \<open>the body of this \<^verbatim>\<open>if\<close> is a comment only\<close>
                 else s);
            msn' = evaluate_msn msi' ri' freqHz (xtal s)
        in s\<lparr>vfo := (vfo s)(unat vfoIdx :=
               (vfo s (unat vfoIdx))\<lparr>freq := freqHz, ri := ucast ri', msi := msi', msn := msn'\<rparr>)\<rparr>)"

section \<open>Public functions\<close>

definition resetPLL :: "si5351 \<Rightarrow> si5351" where
  "resetPLL s = wr SI_PLL_RESET 0xA0 s"

definition enable :: "u8 \<Rightarrow> bool \<Rightarrow> si5351 \<Rightarrow> si5351" where
  "enable vfoIdx en s =
     (let (oe, s1) = rd SI_CLK_OE s;
          oe = (if vfoIdx = 0
                then (if en then oe AND NOT 0x03 else oe OR 0x03)
                else (if en then oe AND NOT 0x04 else oe OR 0x04))
      in wr SI_CLK_OE oe s1)"

definition setPhase :: "u8 \<Rightarrow> u8 \<Rightarrow> si5351 \<Rightarrow> si5351" where
  "setPhase vfoIdx ph s =
     (if vfoIdx \<noteq> 0 \<or> 3 < ph then s
      else s\<lparr>vfo := (vfo s)(0 := (vfo s 0)\<lparr>phase := ph\<rparr>)\<rparr>)"

definition setFreq :: "u8 \<Rightarrow> u32 \<Rightarrow> si5351 \<Rightarrow> si5351" where
  "setFreq vfoIdx freqHz s = (if 1 < vfoIdx then s else evaluate vfoIdx freqHz s)"

definition update_vfo0 :: "si5351 \<Rightarrow> si5351" where
  \<comment> \<open>the branch \<^verbatim>\<open>vfoIdx == 0\<close> of \<^verbatim>\<open>update\<close>\<close>
  "update_vfo0 s =
     (let rcode = rDivToCode (ri (vfo s 0));
          s = setMSI 0 (msi (vfo s 0)) rcode s;
          s = setMSI 1 (msi (vfo s 0)) rcode s;
          s = wr SI_CLK0_PHOFF 0 s;
          s = wr SI_CLK1_PHOFF
                (if phase (vfo s 0) = PH090 \<or> phase (vfo s 0) = PH270 then msi (vfo s 0) else 0) s;
          clk0ctl = SI_CLK_SRC_MS OR SI_CLK_INT OR SI_CLK_IDRV_4mA;
          clk1ctl = SI_CLK_SRC_MS OR SI_CLK_INT OR SI_CLK_IDRV_4mA;
          clk1ctl = (if phase (vfo s 0) = PH180 \<or> phase (vfo s 0) = PH270
                     then clk1ctl OR SI_CLK_INV else clk1ctl);
          s = wr SI_CLK0_CTL clk0ctl s
      in wr SI_CLK1_CTL clk1ctl s)"

definition update_vfo1 :: "si5351 \<Rightarrow> si5351" where
  \<comment> \<open>the \<^verbatim>\<open>else\<close> branch of \<^verbatim>\<open>update\<close>\<close>
  "update_vfo1 s =
     (let rcode = rDivToCode (ri (vfo s 1));
          s = setMSI 2 (msi (vfo s 1)) rcode s;
          clk2ctl = SI_CLK_SRC_MS OR SI_CLK_INT OR SI_CLK_PLLB OR SI_CLK_IDRV_4mA
      in wr SI_CLK2_CTL clk2ctl s)"

definition update :: "u8 \<Rightarrow> si5351 \<Rightarrow> si5351 option" where
  "update vfoIdx s =
     (if 1 < vfoIdx then Some s
      else do {
        s \<leftarrow> setMSN (if vfoIdx = 0 then 0 else 1) (msn (vfo s (unat vfoIdx))) s;
        let s = (if vfoIdx = 0 then update_vfo0 s else update_vfo1 s);
        Some (resetPLL s)
      })"

definition begin_si5351 :: "si5351 \<Rightarrow> si5351 option" where
  \<comment> \<open>\<^verbatim>\<open>Si5351::begin\<close>; its first call, \<^verbatim>\<open>Wire.begin()\<close>, issues no transaction\<close>
  "begin_si5351 s =
     (let s = wr SI_SS_EN 0x00 s;
          s = wr SI_CLK0_CTL (SI_CLK_SRC_MS OR SI_CLK_IDRV_4mA) s;
          s = wr SI_CLK1_CTL (SI_CLK_SRC_MS OR SI_CLK_IDRV_4mA) s;
          s = wr SI_CLK2_CTL (SI_CLK_SRC_MS OR SI_CLK_PLLB OR SI_CLK_IDRV_4mA) s;
          s = s\<lparr>vfo := (vfo s)
                (0 := \<lparr>freq = 7074000, phase = PH270, ri = 1, msi = 106, msn = Finite 30\<rparr>,
                 1 := \<lparr>freq = 10000000, phase = PH000, ri = 1, msi = 76, msn = Finite 30\<rparr>)\<rparr>
      in do {
        s \<leftarrow> update 0 s;
        s \<leftarrow> update 1 s;
        let s = enable 0 True s;
        Some (enable 1 False s)
      })"

text \<open>
  The constructor stores the crystal frequency and leaves \<^verbatim>\<open>_vfo\<close> as the storage holds it.
  The object of \<^verbatim>\<open>example.cpp\<close> is a global, so its storage is zero before the constructor
  runs; the device there is taken with every register zero and answering.
\<close>

definition Si5351 :: "u32 \<Rightarrow> (nat \<Rightarrow> vfo_t) \<Rightarrow> wire \<Rightarrow> si5351" where
  "Si5351 xtalFreq storage w = \<lparr>xtal = xtalFreq, vfo = storage, bus = w\<rparr>"

definition example_vfo :: si5351 where
  "example_vfo =
     Si5351 25000000
       (\<lambda>_. \<lparr>freq = 0, phase = 0, ri = 0, msi = 0, msn = Finite 0\<rparr>)
       \<lparr>regs = (\<lambda>_. 0), answers = True, issued = []\<rparr>"

text \<open>
  A driver whose VFO0 holds the bring-up defaults with the phase set to 90 degrees, as after
  \<^verbatim>\<open>begin()\<close> and \<^verbatim>\<open>setPhase(0, PH090)\<close>, on a bus with nothing issued yet.
\<close>

definition quadrature_vfo :: si5351 where
  "quadrature_vfo = example_vfo\<lparr>vfo := (vfo example_vfo)
     (0 := \<lparr>freq = 7074000, phase = PH090, ri = 1, msi = 106, msn = Finite 30\<rparr>)\<rparr>"

section \<open>The planner of the specification\<close>

text \<open>
  The two divider choices as the specification words them (section 4.1, steps 1 and 2), on
  natural numbers: the band of the target frequency gives the R divider; the MultiSynth divider
  is 126 below 6 MHz and otherwise the quotient \<open>700000000 div (f * r)\<close> clamped to
  \<open>[4, 126]\<close>, rounded up to an even number and capped at 126.
\<close>

definition spec_rDivider :: "nat \<Rightarrow> nat" where
  "spec_rDivider f = (if f < 1000000 then 128 else if f < 3000000 then 32 else 1)"

definition spec_msDivider :: "nat \<Rightarrow> nat" where
  "spec_msDivider f =
     (if f < 6000000 then 126
      else min 126 (2 * ((min 126 (max 4 (700000000 div (f * spec_rDivider f))) + 1) div 2)))"

section \<open>Reading a register image\<close>

text \<open>
  A parameter block of the chip is eight bytes: P3[15:8], P3[7:0], the R divider code in bits
  6 to 4 over P1[17:16] in bits 1 and 0, P1[15:8], P1[7:0], P3[19:16] in the high nibble over
  P2[19:16] in the low nibble, P2[15:8], P2[7:0]. \<open>image_fields\<close> reads \<open>(P1, P2, P3, R)\<close>
  back from such a block. The driver has no such function; it serves to state what an image
  holds.
\<close>

definition image_fields :: "u8 list \<Rightarrow> (nat \<times> nat \<times> nat \<times> nat) option" where
  "image_fields bs =
     (if length bs = 8
      then Some (65536 * (unat (bs ! 2) mod 4) + 256 * unat (bs ! 3) + unat (bs ! 4),
                 65536 * (unat (bs ! 5) mod 16) + 256 * unat (bs ! 6) + unat (bs ! 7),
                 65536 * (unat (bs ! 5) div 16) + 256 * unat (bs ! 0) + unat (bs ! 1),
                 unat (bs ! 2) div 16 mod 8)
      else None)"



section \<open>Facts about machine words\<close>

lemma evaluate_ri_unat:
  "unat (evaluate_ri f) = (if unat f < 1000000 then 128 else if unat f < 3000000 then 32 else 1)"
  by (simp add: evaluate_ri_def word_less_nat_alt)

lemma even_unat_u32: "even (unat (w :: u32)) = even w"
proof -
  have "bit (unat w) 0 = bit w 0"
    by (simp only: bit_unsigned_iff) (simp add: possible_bit_def)
  then show ?thesis by (simp only: bit_0) simp
qed

lemma unat_u32_bound: "unat (w :: u32) < 4294967296"
  using unsigned_less [of w, where ?'a = nat] by simp

lemma unat_u8_bound: "unat (w :: u8) < 256"
  using unsigned_less [of w, where ?'a = nat] by simp

lemma unat_ucast_u32_u64: "unat (ucast (w :: u32) :: u64) = unat w"
  using unat_u32_bound [of w] by (simp add: unsigned_ucast_eq take_bit_nat_eq_self)

lemma unat_ucast_u8_u32: "unat (ucast (w :: u8) :: u32) = unat w"
  using unat_u8_bound [of w] by (simp add: unsigned_ucast_eq take_bit_nat_eq_self)

lemma unat_u64_mult:
  "unat ((ucast (a :: u32) :: u64) * ucast (b :: u32)) = unat a * unat b"
proof -
  have "unat a * unat b < 4294967296 * 4294967296"
    using unat_u32_bound [of a] unat_u32_bound [of b] by (intro mult_strict_mono) simp_all
  then have "unat a * unat b < 2 ^ 64" by simp
  then show ?thesis
    by (simp add: unat_word_ariths unat_ucast_u32_u64)
qed

lemma odd_word_and1: "((w :: u32) AND 1 \<noteq> 0) = odd (unat w)"
  using even_word_iff [of w] by (simp add: even_word_def even_unat_u32)

lemma take_bit_32_small: "(m::nat) \<le> 700000000 \<Longrightarrow> take_bit 32 m = m"
  by (rule take_bit_nat_eq_self) simp

lemma tentative_unat:
  "unat (ucast ((700000000 :: u64) div (ucast (f :: u32) * ucast (r :: u32))) :: u32)
     = 700000000 div (unat f * unat r)"
proof -
  have "unat ((700000000 :: u64) div (ucast f * ucast r)) = 700000000 div (unat f * unat r)"
    by (simp add: unat_div unat_u64_mult)
  moreover have "(700000000 :: nat) div (unat f * unat r) \<le> 700000000"
    by (rule div_le_dividend)
  ultimately show ?thesis
    by (simp add: unsigned_ucast_eq take_bit_32_small)
qed

lemma unat_ucast_u32_u8: "unat w \<le> 255 \<Longrightarrow> unat (ucast (w :: u32) :: u8) = unat w"
  by (simp add: unsigned_ucast_eq take_bit_nat_eq_self)

lemma unat_u32_Suc: "unat w \<le> 126 \<Longrightarrow> unat ((w :: u32) + 1) = unat w + 1"
  by (simp add: unat_word_ariths)

subsection \<open>Bytes of a 32-bit word\<close>

lemma and_255: "(w :: u32) AND 0xFF = take_bit 8 w"
  by (simp add: take_bit_eq_mask mask_eq_exp_minus_1)

lemma and_3: "(w :: u32) AND 0x03 = take_bit 2 w"
  by (simp add: take_bit_eq_mask mask_eq_exp_minus_1)

lemma byte_of: "unat (ucast (drop_bit n (w :: u32) AND 0xFF) :: u8) = (unat w div 2 ^ n) mod 256"
proof -
  have "unat (ucast (drop_bit n w AND 0xFF) :: u8) = take_bit 8 (take_bit 8 (drop_bit n (unat w)))"
    by (simp only: and_255 unsigned_ucast_eq unsigned_take_bit_eq unat_drop_bit_eq) simp
  then show ?thesis
    by (simp add: take_bit_eq_mod drop_bit_eq_div)
qed

lemma low_byte_of: "unat (ucast ((w :: u32) AND 0xFF) :: u8) = unat w mod 256"
  using byte_of [of 0 w] by simp

lemma top2_of: "unat (ucast (drop_bit 16 (w :: u32) AND 0x03) :: u8) = (unat w div 65536) mod 4"
proof -
  have "unat (ucast (drop_bit 16 w AND 0x03) :: u8) = take_bit 8 (take_bit 2 (drop_bit 16 (unat w)))"
    by (simp only: and_3 unsigned_ucast_eq unsigned_take_bit_eq unat_drop_bit_eq) simp
  then show ?thesis
    by (simp add: take_bit_eq_mod drop_bit_eq_div)
qed

lemma or_nibble_nat:
  fixes h l :: nat
  assumes "l < 16"
  shows "16 * h OR l = 16 * h + l"
proof -
  have l: "take_bit 4 l = l"
    using assms by (intro take_bit_nat_eq_self) simp
  have "push_bit 4 h AND take_bit 4 l = 0"
    by (rule bit_eqI) (auto simp: bit_simps)
  then have "push_bit 4 h + take_bit 4 l = push_bit 4 h OR take_bit 4 l"
    by (rule disjunctive_add_eq_or)
  then show ?thesis
    by (simp add: l push_bit_eq_mult mult.commute)
qed



lemma and_7_nat: "(m :: nat) AND 7 = m mod 8"
proof -
  have "m AND 7 = take_bit 3 m"
    by (simp add: take_bit_eq_mask mask_eq_exp_minus_1)
  then show ?thesis by (simp add: take_bit_eq_mod)
qed

lemma and_3_nat: "(m :: nat) AND 3 = m mod 4"
proof -
  have "m AND 3 = take_bit 2 m"
    by (simp add: take_bit_eq_mask mask_eq_exp_minus_1)
  then show ?thesis by (simp add: take_bit_eq_mod)
qed


lemma rbits_of:
  "unat (ucast (drop_bit 16 (w :: u32) AND 0x03) OR (push_bit 4 ((r :: u8) AND 0x07) :: u8))
     = 16 * (unat r mod 8) + (unat w div 65536) mod 4"
proof -
  have "unat (r AND 0x07) = unat r AND 7"
    by (simp only: unsigned_and_eq) simp
  then have r7: "unat (r AND 0x07) = unat r mod 8"
    by (simp only: and_7_nat)
  have "unat (push_bit 4 (r AND 0x07) :: u8) = take_bit 8 (push_bit 4 (unat r mod 8))"
    by (simp only: unsigned_push_bit_eq r7) simp
  also have "\<dots> = 16 * (unat r mod 8)"
  proof -
    have "unat r mod 8 < 8" by simp
    then have "16 * (unat r mod 8) < 2 ^ 8" by simp
    then show ?thesis
      by (simp add: push_bit_eq_mult take_bit_nat_eq_self mult.commute)
  qed
  finally have p: "unat (push_bit 4 (r AND 0x07) :: u8) = 16 * (unat r mod 8)" .
  have "unat (ucast (drop_bit 16 w AND 0x03) OR (push_bit 4 (r AND 0x07) :: u8))
    = 16 * (unat r mod 8) OR (unat w div 65536) mod 4"
    by (simp only: unsigned_or_eq top2_of p or.commute)
  also have "\<dots> = 16 * (unat r mod 8) + (unat w div 65536) mod 4"
  proof (rule or_nibble_nat)
    have "(unat w div 65536) mod 4 < 4" by simp
    then show "(unat w div 65536) mod 4 < 16" by linarith
  qed
  finally show ?thesis .
qed

section \<open>Facts about binary64 rounding\<close>

lemma rne_err: "\<bar>of_int (rne q) - q\<bar> \<le> 1 / 2"
proof -
  have "of_int \<lfloor>q\<rfloor> \<le> q" "q < of_int \<lfloor>q\<rfloor> + 1" by linarith+
  then show ?thesis
    by (auto simp: rne_def Let_def)
qed

lemma rne_of_int: "rne (of_int k) = k"
  by (simp add: rne_def)

lemma rne_nonneg: "0 \<le> q \<Longrightarrow> 0 \<le> rne q"
  by (auto simp: rne_def Let_def)

lemma ulp_pos: "0 < ulp x"
  by (simp add: ulp_def)

lemma fl_err: "\<bar>fl x - x\<bar> \<le> ulp x / 2"
proof (cases "x = 0")
  case True
  then show ?thesis using ulp_pos [of x] by (simp add: fl_def)
next
  case False
  have "\<bar>of_int (rne (x / ulp x)) - x / ulp x\<bar> * ulp x \<le> 1 / 2 * ulp x"
    using rne_err [of "x / ulp x"] ulp_pos [of x] by (intro mult_right_mono) simp_all
  moreover have "\<bar>of_int (rne (x / ulp x)) - x / ulp x\<bar> * ulp x
      = \<bar>of_int (rne (x / ulp x)) * ulp x - x\<bar>"
  proof -
    have "(of_int (rne (x / ulp x)) - x / ulp x) * ulp x = of_int (rne (x / ulp x)) * ulp x - x"
      using ulp_pos [of x] by (simp add: left_diff_distrib)
    moreover have "\<bar>of_int (rne (x / ulp x)) - x / ulp x\<bar> * ulp x
        = \<bar>(of_int (rne (x / ulp x)) - x / ulp x) * ulp x\<bar>"
      using ulp_pos [of x] by (simp add: abs_mult)
    ultimately show ?thesis by simp
  qed
  ultimately show ?thesis using False by (simp add: fl_def)
qed

lemma fl_nonneg: "0 \<le> x \<Longrightarrow> 0 \<le> fl x"
  using ulp_pos [of x] rne_nonneg [of "x / ulp x"] by (simp add: fl_def)

lemma fl_exact:
  assumes "x / ulp x = of_int k"
  shows "fl x = x"
proof -
  have "rne (x / ulp x) = k"
    by (simp add: assms rne_of_int)
  then have "of_int (rne (x / ulp x)) * ulp x = x / ulp x * ulp x"
    by (simp add: assms)
  also have "\<dots> = x"
    using ulp_pos [of x] by simp
  finally show ?thesis by (simp add: fl_def)
qed

lemma flog2_bounds:
  assumes "0 < x"
  shows "2 powi (flog2 x) \<le> x" and "x < 2 powi (flog2 x + 1)"
proof -
  obtain p q where pq: "quotient_of x = (p, q)" by (cases "quotient_of x")
  have q: "0 < q" using pq by (rule quotient_of_denom_pos)
  have x: "x = of_int p / of_int q" using pq by (rule quotient_of_div)
  have p: "0 < p" using assms q by (simp add: x zero_less_divide_iff)
  define e where "e = bitlen p - bitlen q"
  have f: "flog2 x = (if 2 powi e \<le> x then e else e - 1)"
    by (simp add: flog2_def pq e_def Let_def)
  have bp: "1 \<le> bitlen p" "1 \<le> bitlen q"
    using p q bitlen_eq_zero_iff [of p] bitlen_eq_zero_iff [of q] bitlen_nonneg [of p] bitlen_nonneg [of q]
    by linarith+
  have "(2 :: int) ^ nat (bitlen p - 1) \<le> p" "p < 2 ^ nat (bitlen p)"
    "(2 :: int) ^ nat (bitlen q - 1) \<le> q" "q < 2 ^ nat (bitlen q)"
    using bitlen_bounds [OF p] bitlen_bounds [OF q] by simp_all
  then have "rat_of_int (2 ^ nat (bitlen p - 1)) \<le> of_int p" "rat_of_int p < of_int (2 ^ nat (bitlen p))"
    "rat_of_int (2 ^ nat (bitlen q - 1)) \<le> of_int q" "rat_of_int q < of_int (2 ^ nat (bitlen q))"
    by (simp_all only: of_int_le_iff of_int_less_iff)
  then have P: "(2 :: rat) powi (bitlen p - 1) \<le> of_int p" "of_int p < (2 :: rat) powi (bitlen p)"
    and Q: "(2 :: rat) powi (bitlen q - 1) \<le> of_int q" "of_int q < (2 :: rat) powi (bitlen q)"
    using bp by (simp_all add: power_int_def)
  have qpos: "0 < rat_of_int q" using q by simp
  have lower: "2 powi (e - 1) \<le> x"
  proof -
    have "(2 :: rat) powi (e - 1) * of_int q \<le> 2 powi (e - 1) * 2 powi (bitlen q)"
      using Q(2) by (intro mult_left_mono) simp_all
    also have "\<dots> = 2 powi (bitlen p - 1)"
      by (simp add: e_def flip: power_int_add)
    also have "\<dots> \<le> of_int p" by (rule P(1))
    finally show ?thesis
      using qpos by (simp add: x pos_le_divide_eq)
  qed
  have upper: "x < 2 powi (e + 1)"
  proof -
    have "of_int p < (2 :: rat) powi (bitlen p)" by (rule P(2))
    also have "\<dots> = 2 powi (e + 1) * 2 powi (bitlen q - 1)"
      by (simp add: e_def flip: power_int_add)
    also have "\<dots> \<le> 2 powi (e + 1) * of_int q"
      using Q(1) by (intro mult_left_mono) simp_all
    finally show ?thesis
      using qpos by (simp add: x pos_divide_less_eq)
  qed
  show "2 powi (flog2 x) \<le> x"
    using lower by (simp add: f)
  show "x < 2 powi (flog2 x + 1)"
    using upper by (auto simp: f not_le)
qed


lemma flog2_less:
  assumes "0 < x" and "x < 2 powi k"
  shows "flog2 x < k"
proof (rule ccontr)
  assume "\<not> flog2 x < k"
  then have "(2 :: rat) powi k \<le> 2 powi (flog2 x)"
    by (intro power_int_increasing) simp_all
  with flog2_bounds(1) [OF assms(1)] assms(2) show False by linarith
qed

lemma flog2_ge:
  assumes "0 < x" and "2 powi k \<le> x"
  shows "k \<le> flog2 x"
proof (rule ccontr)
  assume "\<not> k \<le> flog2 x"
  then have "(2 :: rat) powi (flog2 x + 1) \<le> 2 powi k"
    by (intro power_int_increasing) simp_all
  with flog2_bounds(2) [OF assms(1)] assms(2) show False by linarith
qed

lemma ulp_le:
  assumes "x \<noteq> 0" and "\<bar>x\<bar> < 2 powi k" and "- 1021 \<le> k"
  shows "ulp x \<le> 2 powi (k - 53)"
proof -
  have "flog2 \<bar>x\<bar> < k"
    using assms by (intro flog2_less) simp_all
  then have "max (flog2 \<bar>x\<bar>) (- 1022) - 52 \<le> k - 53"
    using assms(3) by simp
  then show ?thesis
    unfolding ulp_def by (intro power_int_increasing) simp_all
qed

lemma ulp_ge:
  assumes "2 powi k \<le> \<bar>x\<bar>"
  shows "2 powi (k - 52) \<le> ulp x"
proof -
  have "0 < \<bar>x\<bar>"
    using assms zero_less_power_int [of "2 :: rat" k] by linarith
  then have "k \<le> flog2 \<bar>x\<bar>"
    using assms by (intro flog2_ge)
  then have "k - 52 \<le> max (flog2 \<bar>x\<bar>) (- 1022) - 52"
    by simp
  then show ?thesis
    unfolding ulp_def by (intro power_int_increasing) simp_all
qed

lemma fl_grid:
  assumes x: "x = of_int m * 2 powi j"
    and b: "\<bar>x\<bar> < 2 powi (j + 53)"
    and j: "- 1074 \<le> j"
  shows "fl x = x"
proof (cases "x = 0")
  case True
  then show ?thesis by (simp add: fl_def)
next
  case False
  define E where "E = max (flog2 \<bar>x\<bar>) (- 1022)"
  have "flog2 \<bar>x\<bar> < j + 53"
    using False b by (intro flog2_less) simp_all
  then have d: "0 \<le> j - (E - 52)"
    using j by (simp add: E_def)
  have u: "ulp x = 2 powi (E - 52)"
    by (simp add: ulp_def E_def)
  have p: "2 powi j / 2 powi (E - 52) = (2 :: rat) ^ nat (j - (E - 52))"
  proof -
    have "2 powi j / 2 powi (E - 52) = (2 :: rat) powi (j - (E - 52))"
      by (simp add: power_int_diff)
    also have "\<dots> = 2 ^ nat (j - (E - 52))"
      using d by (simp add: power_int_def)
    finally show ?thesis .
  qed
  have "x / ulp x = x / 2 powi (E - 52)"
    by (simp only: u)
  also have "\<dots> = of_int m * (2 powi j / 2 powi (E - 52))"
    by (subst x) simp
  also have "\<dots> = of_int (m * 2 ^ nat (j - (E - 52)))"
    by (simp only: p) simp
  finally have "x / ulp x = of_int (m * 2 ^ nat (j - (E - 52)))" .
  then show ?thesis by (rule fl_exact)
qed

lemma fl_of_int:
  assumes "\<bar>n\<bar> < 2 ^ 53"
  shows "fl (of_int n) = of_int n"
proof (rule fl_grid [where m = n and j = 0])
  show "rat_of_int n = of_int n * 2 powi 0" by simp
  have "rat_of_int \<bar>n\<bar> < of_int (2 ^ 53)"
    using assms by (simp only: of_int_less_iff)
  then show "\<bar>rat_of_int n\<bar> < 2 powi (0 + 53)" by simp
qed simp


lemma fl_near:
  assumes "x \<noteq> 0" and "\<bar>x\<bar> < 2 powi k" and "- 1021 \<le> k"
  shows "\<bar>fl x - x\<bar> \<le> 2 powi (k - 54)"
proof -
  have "\<bar>fl x - x\<bar> \<le> ulp x / 2" by (rule fl_err)
  also have "\<dots> \<le> 2 powi (k - 53) / 2"
    using ulp_le [OF assms] by simp
  also have "\<dots> = 2 powi (k - 54)"
    using power_int_add [of "2 :: rat" "k - 54" 1] by simp
  finally show ?thesis .
qed

lemma floor_fl_div:
  assumes "N < 4294967296"
  shows "\<lfloor>fl (of_nat N / 1000000)\<rfloor> = int (N div 1000000)"
proof -
  define n where "n = N div 1000000"
  define r where "r = N mod 1000000"
  have N: "N = 1000000 * n + r" by (simp add: n_def r_def)
  have r: "r < 1000000" by (simp add: r_def)
  have n: "n < 4295" using assms by (simp add: n_def)
  define x :: rat where "x = of_nat N / 1000000"
  have x: "x = of_nat n + of_nat r / 1000000"
    by (simp add: x_def N add_divide_distrib)
  show ?thesis
  proof (cases "r = 0")
    case True
    then have xn: "x = of_int (int n)" by (simp add: x)
    have "fl (of_int (int n)) = of_int (int n)"
      using n by (intro fl_of_int) simp
    then show ?thesis
      by (simp add: xn x_def [symmetric] n_def [symmetric])
  next
    case False
    then have "(1 :: rat) \<le> of_nat r" by simp
    moreover have "rat_of_nat r \<le> 999999"
      using r by simp
    ultimately have fr: "1 / 1000000 \<le> rat_of_nat r / 1000000"
      "rat_of_nat r / 1000000 \<le> 999999 / 1000000"
      by simp_all
    have nn: "(0 :: rat) \<le> of_nat n" "rat_of_nat n < 4295"
      using n by simp_all
    have x0: "x \<noteq> 0" and xb: "\<bar>x\<bar> < 2 powi 13"
      using fr nn by (simp_all add: x)
    have "\<bar>fl x - x\<bar> \<le> 2 powi (13 - 54)"
      using x0 xb by (rule fl_near) simp
    moreover have "(2 :: rat) powi (13 - 54) = 1 / 2199023255552"
      by (simp add: power_int_minus_divide)
    ultimately have "\<bar>fl x - x\<bar> \<le> 1 / 2199023255552"
      by simp
    then have "rat_of_nat n \<le> fl x" "fl x < rat_of_nat n + 1"
      using fr unfolding x by linarith+
    then have "\<lfloor>fl x\<rfloor> = int n"
      by (intro floor_unique) simp_all
    then show ?thesis
      by (simp add: x_def n_def)
  qed
qed

lemma frac_stage:
  assumes "0 \<le> f" and "f < 1"
  shows "0 \<le> fl f" and "fl f \<le> 1 + 1 / 2 ^ 54"
proof -
  show "0 \<le> fl f" using assms(1) by (rule fl_nonneg)
  show "fl f \<le> 1 + 1 / 2 ^ 54"
  proof (cases "f = 0")
    case True
    then show ?thesis by (simp add: fl_def)
  next
    case False
    have "\<bar>fl f - f\<bar> \<le> 2 powi (0 - 54)"
      using False assms by (intro fl_near) simp_all
    moreover have "(2 :: rat) powi (0 - 54) = 1 / 2 ^ 54"
      by (simp add: power_int_minus_divide)
    ultimately have "\<bar>fl f - f\<bar> \<le> 1 / 2 ^ 54" by simp
    then show ?thesis using assms(2) by linarith
  qed
qed

lemma fl_scaled_near:
  assumes "0 < z" and "z < 1048576"
  shows "\<bar>fl z - z\<bar> \<le> 1 / 17179869184"
proof -
  have "\<bar>fl z - z\<bar> \<le> 2 powi (20 - 54)"
    using assms by (intro fl_near) simp_all
  moreover have "(2 :: rat) powi (20 - 54) = 1 / 17179869184"
    by (simp add: power_int_minus_divide)
  ultimately show ?thesis by simp
qed

lemma scale_stage:
  assumes "0 \<le> y" and "y \<le> 1 + 1 / 2 ^ 54"
  shows "0 \<le> fl (y * 1000000)" and "fl (y * 1000000) < 1000001"
proof -
  show "0 \<le> fl (y * 1000000)" using assms(1) by (intro fl_nonneg) simp
  show "fl (y * 1000000) < 1000001"
  proof (cases "y = 0")
    case True
    then show ?thesis by (simp add: fl_def)
  next
    case False
    have "y \<le> 1 + 1 / 18014398509481984" using assms(2) by simp
    then have z: "y * 1000000 \<le> 1000000 + 1000000 / 18014398509481984"
      by linarith
    then have "y * 1000000 < 1048576" by linarith
    moreover have "0 < y * 1000000" using False assms(1) by simp
    ultimately have "\<bar>fl (y * 1000000) - y * 1000000\<bar> \<le> 1 / 17179869184"
      by (intro fl_scaled_near)
    then show ?thesis using z by linarith
  qed
qed

lemma scale_lt:
  assumes "0 \<le> f" and "f \<le> 1 - 1 / 2 ^ 52"
  shows "fl (f * 1000000) < 1000000"
proof (cases "f = 0")
  case True
  then show ?thesis by (simp add: fl_def)
next
  case False
  have "f \<le> 1 - 1 / 4503599627370496" using assms(2) by simp
  then have z: "f * 1000000 \<le> 1000000 - 1000000 / 4503599627370496"
    by linarith
  then have "f * 1000000 < 1048576" by linarith
  moreover have "0 < f * 1000000" using False assms(1) by simp
  ultimately have "\<bar>fl (f * 1000000) - f * 1000000\<bar> \<le> 1 / 17179869184"
    by (intro fl_scaled_near)
  then show ?thesis using z by linarith
qed


lemma frac_exact:
  assumes d: "fl x = x" and x1: "1 \<le> x" and x32: "x < 4294967296"
  shows "fl (x - of_int \<lfloor>x\<rfloor>) = x - of_int \<lfloor>x\<rfloor>"
    and "x - of_int \<lfloor>x\<rfloor> \<le> 1 - 1 / 2 ^ 52"
proof -
  have x0: "x \<noteq> 0" and ax: "\<bar>x\<bar> = x" using x1 by simp_all
  define M where "M = rne (x / ulp x)"
  have xM: "x = of_int M * ulp x"
    using d x0 by (simp add: fl_def M_def)
  have e0: "0 \<le> flog2 \<bar>x\<bar>"
    using x1 by (intro flog2_ge) (simp_all add: ax)
  have e32: "flog2 \<bar>x\<bar> < 32"
    using x1 x32 by (intro flog2_less) (simp_all add: ax)
  define g where "g = nat (52 - flog2 \<bar>x\<bar>)"
  have g: "flog2 \<bar>x\<bar> - 52 = - int g" and g52: "g \<le> 52" and g21: "21 \<le> g"
    using e0 e32 by (simp_all add: g_def)
  have u: "ulp x = 2 powi (- int g)"
    using e0 by (simp add: ulp_def g [symmetric] max_def)
  have ug: "ulp x * 2 ^ g = 1"
    by (simp add: u power_int_minus)
  define K where "K = M - \<lfloor>x\<rfloor> * 2 ^ g"
  have "of_int K * ulp x = of_int M * ulp x - of_int \<lfloor>x\<rfloor> * (2 ^ g * ulp x)"
    by (simp add: K_def left_diff_distrib mult.assoc)
  also have "\<dots> = x - of_int \<lfloor>x\<rfloor>"
  proof -
    have "2 ^ g * ulp x = 1" using ug by (simp only: mult.commute)
    then show ?thesis using xM by simp
  qed
  finally have fK: "x - of_int \<lfloor>x\<rfloor> = of_int K * 2 powi (- int g)"
    by (simp add: u)
  have f01: "0 \<le> x - of_int \<lfloor>x\<rfloor>" "x - of_int \<lfloor>x\<rfloor> < 1"
    by linarith+
  show "fl (x - of_int \<lfloor>x\<rfloor>) = x - of_int \<lfloor>x\<rfloor>"
  proof (rule fl_grid [OF fK])
    have "(1 :: rat) \<le> 2 powi (- int g + 53)"
      using g52 by (intro one_le_power_int) simp_all
    then show "\<bar>x - of_int \<lfloor>x\<rfloor>\<bar> < 2 powi (- int g + 53)"
      using f01 by linarith
    show "- 1074 \<le> - int g" using g52 by simp
  qed
  have "rat_of_int K < 2 ^ g"
  proof -
    have "rat_of_int K = (x - of_int \<lfloor>x\<rfloor>) * 2 ^ g"
      by (simp add: fK power_int_minus)
    also have "\<dots> < 1 * 2 ^ g"
      using f01(2) by (intro mult_strict_right_mono) simp_all
    finally show ?thesis by simp
  qed
  then have "rat_of_int K < of_int (2 ^ g)" by simp
  then have "K < 2 ^ g" by (simp only: of_int_less_iff)
  then have "K \<le> 2 ^ g - 1" by simp
  then have "rat_of_int K \<le> of_int (2 ^ g - 1)" by (simp only: of_int_le_iff)
  then have "rat_of_int K \<le> 2 ^ g - 1" by simp
  then have "rat_of_int K * 2 powi (- int g) \<le> (2 ^ g - 1) * 2 powi (- int g)"
    by (intro mult_right_mono) simp_all
  also have "\<dots> = 1 - 1 / 2 ^ g"
    by (simp add: power_int_minus left_diff_distrib divide_inverse)
  also have "\<dots> \<le> 1 - 1 / 2 ^ 52"
  proof -
    have "(2 :: rat) ^ g \<le> 2 ^ 52"
      using g52 by (intro power_increasing) simp_all
    then have "1 / (2 :: rat) ^ 52 \<le> 1 / 2 ^ g"
      by (intro divide_left_mono) simp_all
    then show ?thesis by linarith
  qed
  finally show "x - of_int \<lfloor>x\<rfloor> \<le> 1 - 1 / 2 ^ 52"
    by (simp only: fK)
qed

section \<open>The planner on natural numbers\<close>

lemma evaluate_clamp_unat:
  "unat (evaluate_clamp t) = min 126 (2 * ((min 126 (max 4 (unat t)) + 1) div 2))"
proof -
  consider (lo) "unat t < 4" | (mid) "4 \<le> unat t" "unat t \<le> 126" | (hi) "126 < unat t"
    by linarith
  then show ?thesis
  proof cases
    case lo
    then show ?thesis
      by (simp add: evaluate_clamp_def word_less_nat_alt)
  next
    case hi
    then show ?thesis
      by (simp add: evaluate_clamp_def word_less_nat_alt)
  next
    case mid
    show ?thesis
    proof (cases "odd (unat t)")
      case True
      with mid have "unat t \<le> 125" by presburger
      moreover have "2 * ((unat t + 1) div 2) = unat t + 1"
        using True by presburger
      ultimately show ?thesis
        using mid True
        by (simp add: evaluate_clamp_def word_less_nat_alt odd_word_and1 unat_u32_Suc)
    next
      case False
      then have "2 * ((unat t + 1) div 2) = unat t" by presburger
      then show ?thesis
        using mid False
        by (simp add: evaluate_clamp_def word_less_nat_alt odd_word_and1)
    qed
  qed
qed

lemma evaluate_msi_unat:
  "unat (evaluate_msi f r) =
     (if unat f < 6000000 then 126
      else min 126 (2 * ((min 126 (max 4 (700000000 div (unat f * unat r))) + 1) div 2)))"
proof -
  have "unat (evaluate_clamp t) \<le> 255" for t
    by (simp add: evaluate_clamp_unat)
  then show ?thesis
    by (simp add: evaluate_msi_def word_less_nat_alt unat_ucast_u32_u8 evaluate_clamp_unat
        tentative_unat)
qed


lemma unat_ri_stored: "unat (ucast (evaluate_ri f) :: u8) = unat (evaluate_ri f)"
  by (rule unat_ucast_u32_u8) (simp add: evaluate_ri_unat)

lemma setFreq_runs:
  assumes "vfoIdx \<le> 1" and "freq (vfo s (unat vfoIdx)) \<noteq> f"
  shows "vfo (setFreq vfoIdx f s) (unat vfoIdx) =
         (vfo s (unat vfoIdx))\<lparr>freq := f, ri := ucast (evaluate_ri f),
            msi := evaluate_msi f (evaluate_ri f),
            msn := evaluate_msn (evaluate_msi f (evaluate_ri f)) (evaluate_ri f) f (xtal s)\<rparr>"
  using assms by (simp add: setFreq_def evaluate_def Let_def not_less)

lemma spec_msDivider_high:
  assumes "6000000 \<le> f"
  shows "f * spec_msDivider f \<le> 900000000 \<longleftrightarrow> f \<le> 225000000"
    and "400000000 \<le> f * spec_msDivider f"
proof -
  define t where "t = 700000000 div f"
  have r: "spec_rDivider f = 1" using assms by (simp add: spec_rDivider_def)
  have m: "spec_msDivider f = min 126 (2 * ((min 126 (max 4 t) + 1) div 2))"
    using assms by (simp add: spec_msDivider_def r t_def)
  have "t \<le> 700000000 div 6000000"
    unfolding t_def using assms by (intro div_le_mono2) simp_all
  then have t116: "t \<le> 116" by simp
  have le: "f * t \<le> 700000000"
    unfolding t_def by simp
  have "700000000 mod f < f" using assms by simp
  moreover have "f * t + 700000000 mod f = 700000000"
    unfolding t_def by simp
  ultimately have gt: "700000000 < f * t + f" by linarith
  have both: "(f * spec_msDivider f \<le> 900000000 \<longleftrightarrow> f \<le> 225000000) \<and> 400000000 \<le> f * spec_msDivider f"
  proof (cases "t < 4")
    case True
    then have m4: "spec_msDivider f = 4" by (simp add: m)
    have "f * (t + 1) \<le> f * 4" using True by (intro mult_le_mono2) simp
    then have "f * t + f \<le> f * 4" by (simp only: distrib_left mult_1_right)
    with gt have "700000000 < f * 4" by (rule less_le_trans)
    then show ?thesis unfolding m4 by linarith
  next
    case False
    then have t4: "4 \<le> t" by simp
    have "f * 4 \<le> f * t" using t4 by (intro mult_le_mono2)
    with le have f: "f \<le> 175000000" by linarith
    show ?thesis
    proof (cases "even t")
      case True
      then have "2 * ((t + 1) div 2) = t" by presburger
      then have "spec_msDivider f = t" using t4 t116 by (simp add: m)
      then show ?thesis using le gt f by auto
    next
      case False
      then have "2 * ((t + 1) div 2) = t + 1" by presburger
      then have "spec_msDivider f = t + 1" using t4 t116 by (simp add: m)
      then show ?thesis using le gt f by auto
    qed
  qed
  from both show "f * spec_msDivider f \<le> 900000000 \<longleftrightarrow> f \<le> 225000000" by blast
  from both show "400000000 \<le> f * spec_msDivider f" by blast
qed

lemma vco_band:
  "(400000000 \<le> f * spec_rDivider f * spec_msDivider f \<and> f * spec_rDivider f * spec_msDivider f \<le> 900000000) \<longleftrightarrow>
   (24802 \<le> f \<and> f \<le> 55803 \<or> 3174604 \<le> f \<and> f \<le> 225000000)"
proof -
  consider (a) "f < 1000000" | (b) "1000000 \<le> f" "f < 3000000"
    | (c) "3000000 \<le> f" "f < 6000000" | (d) "6000000 \<le> f"
    by linarith
  then show ?thesis
  proof cases
    case a
    then show ?thesis by (simp add: spec_rDivider_def spec_msDivider_def) linarith
  next
    case b
    then show ?thesis by (simp add: spec_rDivider_def spec_msDivider_def)
  next
    case c
    then show ?thesis by (simp add: spec_rDivider_def spec_msDivider_def) linarith
  next
    case d
    then have "spec_rDivider f = 1" by (simp add: spec_rDivider_def)
    then show ?thesis using spec_msDivider_high [OF d] d by simp
  qed
qed

lemma round_even_range:
  fixes c :: nat
  assumes "4 \<le> c"
  shows "even (min 126 (2 * ((c + 1) div 2))) \<and> 4 \<le> min 126 (2 * ((c + 1) div 2))"
proof -
  have "c \<le> 2 * ((c + 1) div 2)" by presburger
  with assms have "4 \<le> 2 * ((c + 1) div 2)" by linarith
  then show ?thesis by (simp add: min_def)
qed

lemma spec_msDivider_even: "even (spec_msDivider f) \<and> 4 \<le> spec_msDivider f \<and> spec_msDivider f \<le> 126"
proof (cases "f < 6000000")
  case True
  then show ?thesis by (simp add: spec_msDivider_def)
next
  case False
  have "4 \<le> min 126 (max 4 (700000000 div (f * spec_rDivider f)))" by simp
  from round_even_range [OF this] False show ?thesis
    by (simp add: spec_msDivider_def)
qed


lemma planned_ri: "unat (ucast (evaluate_ri f) :: u8) = spec_rDivider (unat f)"
  by (simp add: unat_ri_stored evaluate_ri_unat spec_rDivider_def)

lemma planned_msi: "unat (evaluate_msi f (evaluate_ri f)) = spec_msDivider (unat f)"
  by (simp add: evaluate_msi_unat spec_msDivider_def) (simp add: evaluate_ri_unat spec_rDivider_def)

text \<open>The 64-bit product that the planner compares with the limits never wraps.\<close>

lemma evaluate_fvco_unat:
  "unat (evaluate_fvco f m (evaluate_ri f)) = unat f * unat m * unat (evaluate_ri f)"
proof -
  have r: "unat (evaluate_ri f) \<le> 128" by (simp add: evaluate_ri_unat)
  have "unat f \<le> 4294967296" "unat m \<le> 256"
    using unat_u32_bound [of f] unat_u8_bound [of m] by simp_all
  then have "unat f * unat m \<le> 4294967296 * 256"
    by (rule mult_le_mono)
  then have "unat f * unat m * unat (evaluate_ri f) \<le> 4294967296 * 256 * 128"
    using r by (rule mult_le_mono)
  then have b: "unat f * unat m * unat (evaluate_ri f) < 2 ^ 64" by simp
  have "unat f * unat m \<le> unat f * unat m * unat (evaluate_ri f)"
    by (simp add: evaluate_ri_unat)
  with b have a: "unat f * unat m < 2 ^ 64" by linarith
  have um: "unat (ucast m :: u64) = unat m"
    using unat_u8_bound [of m] by (simp add: unsigned_ucast_eq take_bit_nat_eq_self)
  have "unat ((ucast f :: u64) * ucast m) = unat f * unat m"
    using a by (simp add: unat_word_ariths unat_ucast_u32_u64 um)
  then show ?thesis
    using b by (simp add: evaluate_fvco_def unat_word_ariths unat_ucast_u32_u64)
qed

section \<open>Claims about the planner\<close>

text \<open>
  Claim C2. Whenever the planner runs (a valid index and a target frequency \<open>f\<close> different
  from the stored one), the stored R divider is 128 for \<open>f\<close> below 1 MHz, 32 from 1 MHz
  up to 3 MHz and 1 from 3 MHz on, and the stored MultiSynth divider is 126 for \<open>f\<close> below
  6 MHz and otherwise \<open>700000000 div (f * rDivider)\<close> clamped to \<open>[4, 126]\<close>, rounded
  up to the nearest even number and capped at 126; so it is even and lies in \<open>[4, 126]\<close>.
\<close>

theorem planner_dividers:
  "vfoIdx \<le> 1 \<Longrightarrow> freq (vfo s (unat vfoIdx)) \<noteq> f \<Longrightarrow>
   (let v = vfo (setFreq vfoIdx f s) (unat vfoIdx)
    in unat (ri v) = (if unat f < 1000000 then 128 else if unat f < 3000000 then 32 else 1)
     \<and> unat (msi v) =
         (if unat f < 6000000 then 126
          else min 126 (2 * ((min 126 (max 4 (700000000 div (unat f * unat (ri v)))) + 1) div 2)))
     \<and> even (unat (msi v)) \<and> 4 \<le> unat (msi v) \<and> unat (msi v) \<le> 126)"
proof -
  assume a: "vfoIdx \<le> 1" "freq (vfo s (unat vfoIdx)) \<noteq> f"
  have r: "unat (ri (vfo (setFreq vfoIdx f s) (unat vfoIdx))) = spec_rDivider (unat f)"
    by (simp add: setFreq_runs [OF a] planned_ri)
  have m: "unat (msi (vfo (setFreq vfoIdx f s) (unat vfoIdx))) = spec_msDivider (unat f)"
    by (simp add: setFreq_runs [OF a] planned_msi)
  show ?thesis
    unfolding Let_def r m using spec_msDivider_even [of "unat f"]
    by (simp add: spec_rDivider_def spec_msDivider_def)
qed

theorem planner_dividers_witness:
  "(1 :: u8) \<le> 1 \<and> freq (vfo example_vfo 1) \<noteq> 10000000 \<and>
   unat (ri (vfo (setFreq 1 10000000 example_vfo) 1)) = 1 \<and>
   unat (msi (vfo (setFreq 1 10000000 example_vfo) 1)) = 70"
  using planner_dividers [of 1 example_vfo 10000000]
  by (simp add: example_vfo_def Si5351_def Let_def)


text \<open>
  Claim C1 as stated fails: the specification's own scenario of 500 kHz is planned with
  \<open>R = 128\<close> and \<open>M = 126\<close>, an implied VCO frequency of 8 064 000 000 Hz. The
  planner computes the product, compares it with the limits and stores the parameters whatever
  the outcome.
\<close>

theorem vco_range_counterexample:
  "\<not> (let v = vfo (setFreq 0 500000 example_vfo) 0;
          fvco = unat (freq v) * unat (ri v) * unat (msi v)
      in SI_VCO_LO \<le> fvco \<and> fvco \<le> SI_VCO_HI)"
  by (simp add: setFreq_def evaluate_def evaluate_ri_def evaluate_msi_def example_vfo_def
      Si5351_def SI_VCO_LO_def SI_VCO_HI_def Let_def)


text \<open>
  Claim C1, amended. Whenever the planner runs, the stored parameters satisfy
  \<open>400000000 \<le> targetFrequencyHz * rDivider * msDivider \<le> 900000000\<close> exactly when
  the target frequency lies in one of the bands 24 802 Hz to 55 803 Hz or 3 174 604 Hz to
  225 000 000 Hz; the crystal frequency plays no part. Outside these bands the parameters are
  stored all the same.
\<close>

theorem vco_range_bands:
  "vfoIdx \<le> 1 \<Longrightarrow> freq (vfo s (unat vfoIdx)) \<noteq> f \<Longrightarrow>
   (let v = vfo (setFreq vfoIdx f s) (unat vfoIdx);
        fvco = unat (freq v) * unat (ri v) * unat (msi v)
    in (SI_VCO_LO \<le> fvco \<and> fvco \<le> SI_VCO_HI) \<longleftrightarrow>
       (24802 \<le> unat f \<and> unat f \<le> 55803 \<or> 3174604 \<le> unat f \<and> unat f \<le> 225000000))"
proof -
  assume a: "vfoIdx \<le> 1" "freq (vfo s (unat vfoIdx)) \<noteq> f"
  have "unat (freq (vfo (setFreq vfoIdx f s) (unat vfoIdx))) = unat f"
    and "unat (ri (vfo (setFreq vfoIdx f s) (unat vfoIdx))) = spec_rDivider (unat f)"
    and "unat (msi (vfo (setFreq vfoIdx f s) (unat vfoIdx))) = spec_msDivider (unat f)"
    by (simp_all add: setFreq_runs [OF a] planned_ri planned_msi)
  then show ?thesis
    unfolding Let_def SI_VCO_LO_def SI_VCO_HI_def by (simp only: vco_band)
qed

theorem vco_range_bands_witness:
  "(0 :: u8) \<le> 1 \<and> freq (vfo example_vfo 0) \<noteq> 14200000 \<and>
   (let v = vfo (setFreq 0 14200000 example_vfo) 0;
        fvco = unat (freq v) * unat (ri v) * unat (msi v)
    in SI_VCO_LO \<le> fvco \<and> fvco \<le> SI_VCO_HI)"
  using vco_range_bands [of 0 example_vfo 14200000]
  by (simp add: example_vfo_def Si5351_def Let_def)


text \<open>
  Claim C7 as stated fails: on the freshly constructed driver with a 25 MHz crystal,
  \<^verbatim>\<open>setFreq(0, 7074000)\<close> stores \<open>M = 98\<close>, since
  \<open>700000000 div 7074000 = 98\<close> is even already.
\<close>

theorem setFreq_7074000_counterexample:
  "\<not> (let v = vfo (setFreq 0 7074000 example_vfo) 0
      in unat (ri v) = 1 \<and> unat (msi v) = 96)"
  by (simp add: setFreq_def evaluate_def evaluate_ri_def evaluate_msi_def evaluate_clamp_def
      example_vfo_def Si5351_def Let_def)


text \<open>
  Claim C7, amended. Whenever the stored target of VFO0 differs from 7 074 000 Hz, so that the
  planner runs, \<^verbatim>\<open>setFreq(0, 7074000)\<close> stores \<open>R = 1\<close> and \<open>M = 98\<close>; this
  \<open>M\<close> is even and in \<open>[4, 126]\<close>, and the implied VCO frequency 693 252 000 Hz is
  within the limits, for a 25 MHz crystal as for any other.
\<close>

theorem setFreq_7074000:
  "freq (vfo s 0) \<noteq> 7074000 \<Longrightarrow>
   (let v = vfo (setFreq 0 7074000 s) 0;
        fvco = unat (freq v) * unat (ri v) * unat (msi v)
    in unat (ri v) = 1 \<and> unat (msi v) = 98 \<and> even (unat (msi v)) \<and> 4 \<le> unat (msi v)
     \<and> unat (msi v) \<le> 126 \<and> SI_VCO_LO \<le> fvco \<and> fvco \<le> SI_VCO_HI)"
proof -
  assume "freq (vfo s 0) \<noteq> 7074000"
  then have a: "(0 :: u8) \<le> 1" "freq (vfo s (unat (0 :: u8))) \<noteq> 7074000" by simp_all
  have "unat (freq (vfo (setFreq 0 7074000 s) 0)) = 7074000"
    and "unat (ri (vfo (setFreq 0 7074000 s) 0)) = spec_rDivider 7074000"
    and "unat (msi (vfo (setFreq 0 7074000 s) 0)) = spec_msDivider 7074000"
    using setFreq_runs [OF a] planned_ri [of 7074000] planned_msi [of 7074000] by simp_all
  then show ?thesis
    unfolding Let_def SI_VCO_LO_def SI_VCO_HI_def by (simp add: spec_rDivider_def spec_msDivider_def)
qed

theorem setFreq_7074000_witness:
  "freq (vfo example_vfo 0) \<noteq> 7074000 \<and> unat (msi (vfo (setFreq 0 7074000 example_vfo) 0)) = 98"
  using setFreq_7074000 [of example_vfo]
  by (simp add: example_vfo_def Si5351_def Let_def)


text \<open>
  Claim C10. For a valid index, \<^verbatim>\<open>setFreq\<close> with the frequency that the VFO has stored
  already returns the driver as it was: no VFO field is recomputed and no bus transaction is
  issued.
\<close>

theorem setFreq_unchanged:
  "vfoIdx \<le> 1 \<Longrightarrow> freq (vfo s (unat vfoIdx)) = f \<Longrightarrow> setFreq vfoIdx f s = s"
  by (simp add: setFreq_def evaluate_def)

theorem setFreq_unchanged_witness:
  "(1 :: u8) \<le> 1 \<and> freq (vfo (setFreq 1 10000000 example_vfo) (unat (1 :: u8))) = 10000000 \<and>
   setFreq 1 10000000 (setFreq 1 10000000 example_vfo) = setFreq 1 10000000 example_vfo"
proof -
  have h: "freq (vfo (setFreq 1 10000000 example_vfo) (unat (1 :: u8))) = 10000000"
    by (simp add: setFreq_def evaluate_def example_vfo_def Si5351_def Let_def)
  show ?thesis
    using h setFreq_unchanged [OF _ h] by simp
qed

section \<open>The PLL multiplier encoder, stage by stage\<close>

lemma unat_word_of_int_u32:
  assumes "0 \<le> t" and "t < 4294967296"
  shows "unat (word_of_int t :: u32) = nat t"
proof -
  have "take_bit 32 t = t"
    using assms by (intro take_bit_int_eq_self) simp_all
  then show ?thesis
    by (simp add: unsigned_of_int)
qed

lemma dbl_small: "\<bar>fl z\<bar> \<le> 4294967296 \<Longrightarrow> dbl z = Finite (fl z)"
  by (simp add: dbl_def)

lemma double_to_u32_nonneg:
  assumes "0 \<le> y" and "y < 4294967296"
  shows "double_to_u32 (Finite y) = Some (word_of_int \<lfloor>y\<rfloor>)"
proof -
  have "0 \<le> \<lfloor>y\<rfloor>" using assms(1) by simp
  moreover have "\<lfloor>y\<rfloor> < 4294967296" using assms(2) by (simp add: floor_less_iff)
  ultimately show ?thesis using assms(1) by simp
qed

lemma setMSN_A_eq:
  assumes "0 \<le> x" and "x < 4294967296"
  shows "setMSN_A (Finite x) = Some (word_of_int \<lfloor>x\<rfloor>)"
proof -
  have "0 \<le> rat_of_int \<lfloor>x\<rfloor>" "rat_of_int \<lfloor>x\<rfloor> < 4294967296"
    using assms by (simp_all add: floor_less_iff)
  from double_to_u32_nonneg [OF this] show ?thesis
    by (simp add: setMSN_A_def)
qed


lemma setMSN_B_eq:
  assumes "0 \<le> x" and "x < 4294967296"
  shows "setMSN_B (Finite x) (word_of_int \<lfloor>x\<rfloor>)
           = Some (word_of_int \<lfloor>fl (fl (x - of_int \<lfloor>x\<rfloor>) * 1000000)\<rfloor>)"
    and "0 \<le> fl (fl (x - of_int \<lfloor>x\<rfloor>) * 1000000)"
    and "fl (fl (x - of_int \<lfloor>x\<rfloor>) * 1000000) < 1000001"
proof -
  define f where "f = x - of_int \<lfloor>x\<rfloor>"
  define y1 where "y1 = fl f"
  define y2 where "y2 = fl (y1 * 1000000)"
  have f01: "0 \<le> f" "f < 1" unfolding f_def by linarith+
  have y1: "0 \<le> y1" "y1 \<le> 1 + 1 / 2 ^ 54"
    unfolding y1_def using f01 by (rule frac_stage)+
  have y2: "0 \<le> y2" "y2 < 1000001"
    unfolding y2_def using y1 by (rule scale_stage)+
  show "0 \<le> fl (fl (x - of_int \<lfloor>x\<rfloor>) * 1000000)"
    and "fl (fl (x - of_int \<lfloor>x\<rfloor>) * 1000000) < 1000001"
    using y2 by (simp_all add: y2_def y1_def f_def)
  have fl0: "0 \<le> \<lfloor>x\<rfloor>" "\<lfloor>x\<rfloor> < 4294967296"
    using assms by (simp_all add: floor_less_iff)
  have A: "u32_to_double (word_of_int \<lfloor>x\<rfloor>) = Finite (of_int \<lfloor>x\<rfloor>)"
    using fl0 by (simp add: u32_to_double_def unat_word_of_int_u32)
  have C: "u32_to_double SI_PLL_C = Finite 1000000"
    by (simp add: u32_to_double_def SI_PLL_C_def)
  have "y1 \<le> 1 + 1 / 18014398509481984" using y1(2) by simp
  then have d1: "dbl f = Finite y1"
    unfolding y1_def using y1(1) by (intro dbl_small) (simp add: y1_def)
  have d2: "dbl (y1 * 1000000) = Finite y2"
    unfolding y2_def using y2 by (intro dbl_small) (simp add: y2_def)
  have "double_to_u32 (Finite y2) = Some (word_of_int \<lfloor>y2\<rfloor>)"
    using y2 by (intro double_to_u32_nonneg) simp_all
  then show "setMSN_B (Finite x) (word_of_int \<lfloor>x\<rfloor>)
           = Some (word_of_int \<lfloor>fl (fl (x - of_int \<lfloor>x\<rfloor>) * 1000000)\<rfloor>)"
    by (simp add: setMSN_B_def A C f_def [symmetric] d1 d2) (simp add: y2_def y1_def)
qed

lemma setMSN_tmp_eq:
  assumes "unat B \<le> 1000000"
  shows "setMSN_tmp B = Some (word_of_nat (128 * unat B div 1000000))"
proof -
  define N where "N = 128 * unat B"
  have N: "N < 4294967296" using assms by (simp add: N_def)
  have uN: "unat (128 * B) = N"
    using N by (simp add: unat_word_ariths N_def)
  define y3 where "y3 = fl (of_nat N / 1000000)"
  have fy: "\<lfloor>y3\<rfloor> = int (N div 1000000)"
    unfolding y3_def using N by (rule floor_fl_div)
  have y0: "0 \<le> y3"
    unfolding y3_def by (intro fl_nonneg) simp
  have "N div 1000000 \<le> 128" using assms by (simp add: N_def)
  then have "\<lfloor>y3\<rfloor> \<le> 128" by (simp add: fy)
  then have "y3 < 129" by (simp add: floor_le_iff)
  then have d: "dbl (of_nat N / 1000000) = Finite y3"
    unfolding y3_def using y0 by (intro dbl_small) (simp add: y3_def)
  have "double_to_u32 (Finite (of_int \<lfloor>y3\<rfloor>)) = Some (word_of_int \<lfloor>rat_of_int \<lfloor>y3\<rfloor>\<rfloor>)"
    using \<open>\<lfloor>y3\<rfloor> \<le> 128\<close> y0 by (intro double_to_u32_nonneg) simp_all
  then have "double_to_u32 (Finite (of_int \<lfloor>y3\<rfloor>)) = Some (word_of_nat (N div 1000000))"
    by (simp add: fy)
  then show ?thesis
    by (simp add: setMSN_tmp_def u32_to_double_def SI_PLL_C_def uN d N_def [symmetric])
qed


lemma setMSN_stages:
  assumes "0 \<le> x" and "x < 4294967296"
  obtains A B tmp where
    "setMSN_A (Finite x) = Some A" and "setMSN_B (Finite x) A = Some B"
    and "setMSN_tmp B = Some tmp" and "unat A = nat \<lfloor>x\<rfloor>"
    and "int (unat B) = \<lfloor>fl (fl (x - of_int \<lfloor>x\<rfloor>) * 1000000)\<rfloor>"
    and "unat B \<le> 1000000" and "unat tmp = 128 * unat B div 1000000"
proof -
  define y2 where "y2 = fl (fl (x - of_int \<lfloor>x\<rfloor>) * 1000000)"
  define A :: u32 where "A = word_of_int \<lfloor>x\<rfloor>"
  define B :: u32 where "B = word_of_int \<lfloor>y2\<rfloor>"
  define tmp :: u32 where "tmp = word_of_nat (128 * unat B div 1000000)"
  have y2: "0 \<le> y2" "y2 < 1000001"
    unfolding y2_def using assms by (rule setMSN_B_eq(2), rule setMSN_B_eq(3))
  have "\<lfloor>y2\<rfloor> < 1000001"
    using y2(2) by (simp add: floor_less_iff)
  then have fy: "0 \<le> \<lfloor>y2\<rfloor>" "\<lfloor>y2\<rfloor> \<le> 1000000"
    using y2(1) by simp_all
  have uB: "unat B = nat \<lfloor>y2\<rfloor>"
    unfolding B_def using fy by (intro unat_word_of_int_u32) simp_all
  have B: "unat B \<le> 1000000" using fy unfolding uB by linarith
  have fx: "0 \<le> \<lfloor>x\<rfloor>" "\<lfloor>x\<rfloor> < 4294967296"
    using assms by (simp_all add: floor_less_iff)
  have "128 * unat B div 1000000 \<le> 128" using B by simp
  then have ut: "unat tmp = 128 * unat B div 1000000"
    by (simp add: tmp_def unat_of_nat take_bit_nat_eq_self)
  show ?thesis
  proof (rule that [of A B tmp])
    show "setMSN_A (Finite x) = Some A"
      unfolding A_def using assms by (rule setMSN_A_eq)
    show "setMSN_B (Finite x) A = Some B"
      unfolding A_def B_def y2_def using assms by (rule setMSN_B_eq(1))
    show "setMSN_tmp B = Some tmp"
      unfolding tmp_def using B by (rule setMSN_tmp_eq)
    show "unat A = nat \<lfloor>x\<rfloor>"
      unfolding A_def using fx by (rule unat_word_of_int_u32)
    show "int (unat B) = \<lfloor>fl (fl (x - of_int \<lfloor>x\<rfloor>) * 1000000)\<rfloor>"
      using fy by (simp add: uB y2_def)
    show "unat B \<le> 1000000" by (rule B)
    show "unat tmp = 128 * unat B div 1000000" by (rule ut)
  qed
qed






lemma setMSN_image_stages:
  assumes "setMSN_A (Finite x) = Some A" and "setMSN_B (Finite x) A = Some B"
    and "setMSN_tmp B = Some tmp"
  shows "setMSN_image (Finite x)
           = Some (setMSN_buf (128 * A + tmp - 512) (128 * B - SI_PLL_C * tmp) SI_PLL_C)"
  using assms by (simp add: setMSN_image_def)

lemma frac_numerator_lt:
  assumes "fl x = x" and "1 \<le> x" and "x < 4294967296"
  shows "\<lfloor>fl (fl (x - of_int \<lfloor>x\<rfloor>) * 1000000)\<rfloor> < 1000000"
proof -
  have "0 \<le> x - of_int \<lfloor>x\<rfloor>" by linarith
  then have "fl ((x - of_int \<lfloor>x\<rfloor>) * 1000000) < 1000000"
    using frac_exact(2) [OF assms] by (rule scale_lt)
  then show ?thesis
    by (simp add: frac_exact(1) [OF assms] floor_less_iff)
qed

subsection \<open>Reading the fields back\<close>

lemma image_fields_map:
  assumes "map unat bs = [u0, u1, u2, u3, u4, u5, u6, u7]"
  shows "image_fields bs =
     Some (65536 * (u2 mod 4) + 256 * u3 + u4, 65536 * (u5 mod 16) + 256 * u6 + u7,
           65536 * (u5 div 16) + 256 * u0 + u1, u2 div 16 mod 8)"
proof -
  have l: "length bs = 8"
    using arg_cong [OF assms, of length] by simp
  have "map unat bs ! i = unat (bs ! i)" if "i < 8" for i
    using that l by simp
  from this [of 0] this [of 1] this [of 2] this [of 3] this [of 4] this [of 5] this [of 6]
    this [of 7]
  show ?thesis
    by (simp add: image_fields_def l assms)
qed

lemma low_two_bytes:
  fixes P :: nat
  shows "P mod 65536 = 256 * (P div 256 mod 256) + P mod 256"
  using mod_mult2_eq [of P 256 256] by simp





subsection \<open>The MultiSynth encoder\<close>

lemma unat_setMSI_P1:
  fixes m :: u8
  assumes "4 \<le> unat m"
  shows "unat (128 * (ucast m :: u32) - 512) = 128 * unat m - 512"
proof -
  have a: "unat (128 * (ucast m :: u32)) = 128 * unat m"
    using unat_u8_bound [of m] by (simp add: unat_word_ariths unat_ucast_u8_u32)
  have "(512 :: u32) \<le> 128 * ucast m"
    using assms by (simp add: word_le_nat_alt a)
  then show ?thesis
    by (simp add: unat_sub a)
qed

lemma setMSI_buf_unat:
  "map unat (setMSI_buf m r) =
     [0, 1, 16 * (unat r mod 8) + unat (128 * (ucast m :: u32) - 512) div 65536 mod 4,
      unat (128 * (ucast m :: u32) - 512) div 256 mod 256,
      unat (128 * (ucast m :: u32) - 512) mod 256, 0, 0, 0]"
  unfolding setMSI_buf_def Let_def list.map rbits_of byte_of
  unfolding low_byte_of
  by simp

lemma rDivToCode_range: "unat (rDivToCode r) \<le> 7"
  by (simp add: rDivToCode_def)

lemma rDivToCode_log2: "k \<le> 7 \<Longrightarrow> rDivToCode (2 ^ k) = of_nat k"
proof -
  assume "k \<le> 7"
  then consider "k = 0" | "k = 1" | "k = 2" | "k = 3" | "k = 4" | "k = 5" | "k = 6" | "k = 7"
    by linarith
  then show ?thesis
    by cases (simp_all add: rDivToCode_def)
qed

section \<open>The nearest binary64 number of a multiplier\<close>







subsection \<open>The image of a multiplier with known parts\<close>



subsection \<open>The planner at 14.2 MHz\<close>



section \<open>Claims about the register encoders\<close>







text \<open>
  Claim C8. For every MultiSynth divider \<open>m\<close> in \<open>[4, 126]\<close> (even or not) and every
  R divider code \<open>r\<close> in \<open>[0, 7]\<close>, the output-divider encoder produces the eight bytes
  of the integer-mode image: \<open>P3 = 1\<close> in the first two bytes, \<open>P1 = 128 * m - 512\<close> in
  bits 1 and 0 of the third byte and in the fourth and fifth byte, the code \<open>r\<close> in bits 6
  to 4 of the third byte, next to the top bits of P1, and \<open>P2 = 0\<close> in the rest; read back
  by the layout of the PLL image, the fields are \<open>(P1, P2, P3, R) = (128 * m - 512, 0, 1, r)\<close>.
\<close>

theorem setMSI_image:
  "4 \<le> unat m \<Longrightarrow> unat m \<le> 126 \<Longrightarrow> unat r \<le> 7 \<Longrightarrow>
   (let P1 = 128 * unat m - 512
    in map unat (setMSI_buf m r) =
         [0, 1, 16 * unat r + P1 div 65536 mod 4, P1 div 256 mod 256, P1 mod 256, 0, 0, 0]
     \<and> image_fields (setMSI_buf m r) = Some (P1, 0, 1, unat r))"
proof -
  assume m4: "4 \<le> unat m" and m126: "unat m \<le> 126" and r7: "unat r \<le> 7"
  define P1 where "P1 = 128 * unat m - 512"
  have P1b: "P1 < 65536" using m126 by (simp add: P1_def)
  have r8: "unat r mod 8 = unat r" using r7 by simp
  have bytes: "map unat (setMSI_buf m r) =
      [0, 1, 16 * unat r + P1 div 65536 mod 4, P1 div 256 mod 256, P1 mod 256, 0, 0, 0]"
    by (simp only: setMSI_buf_unat unat_setMSI_P1 [OF m4] r8 P1_def)
  have k: "P1 div 65536 = 0" using P1b by simp
  have "256 * (P1 div 256 mod 256) + P1 mod 256 = P1"
    using low_two_bytes [of P1] P1b by simp
  then have "image_fields (setMSI_buf m r) = Some (P1, 0, 1, unat r)"
    using image_fields_map [OF bytes] r7 by (simp add: k)
  with bytes show ?thesis
    by (simp add: Let_def P1_def)
qed

theorem setMSI_image_witness:
  "4 \<le> unat (98 :: u8) \<and> unat (98 :: u8) \<le> 126 \<and> unat (5 :: u8) \<le> 7 \<and>
   map unat (setMSI_buf 98 5) = [0, 1, 80, 47, 0, 0, 0, 0] \<and>
   image_fields (setMSI_buf 98 5) = Some (12032, 0, 1, 5)"
  using setMSI_image [of 98 5] by (simp add: Let_def)

section \<open>The transactions of the public functions\<close>

lemma wr_simps:
  "issued (bus (wr reg v s)) = issued (bus s) @ [Write reg [v]]"
  "vfo (wr reg v s) = vfo s" "xtal (wr reg v s) = xtal s"
  by (simp_all add: wr_def transmit_def)

lemma wrBulk_simps:
  "issued (bus (wrBulk reg data len s)) = issued (bus s) @ [Write reg (take (unat len) data)]"
  "vfo (wrBulk reg data len s) = vfo s" "xtal (wrBulk reg data len s) = xtal s"
  by (simp_all add: wrBulk_def transmit_def)

lemma setMSI_simps:
  "issued (bus (setMSI clkIdx m r s)) = issued (bus s) @
     [Write (if clkIdx = 0 then SI_SYNTH_MS0 else if clkIdx = 1 then SI_SYNTH_MS1 else SI_SYNTH_MS2)
        (setMSI_buf m r)]"
  "vfo (setMSI clkIdx m r s) = vfo s" "xtal (setMSI clkIdx m r s) = xtal s"
  by (simp_all add: setMSI_def wrBulk_simps) (simp add: setMSI_buf_def Let_def)

lemma setMSN_image_length: "setMSN_image m = Some img \<Longrightarrow> length img = 8"
  by (auto simp: setMSN_image_def setMSN_buf_def Let_def split: Option.bind_splits)

lemma setMSN_simps:
  assumes "setMSN_image m = Some img"
  shows "\<exists>s'. setMSN pllIdx m s = Some s' \<and> vfo s' = vfo s \<and> xtal s' = xtal s \<and>
     issued (bus s') = issued (bus s) @
       [Write (if pllIdx = 0 then SI_SYNTH_PLLA else SI_SYNTH_PLLB) img]"
  using assms setMSN_image_length [OF assms] by (simp add: setMSN_def wrBulk_simps)

lemma setMSN_image_defined:
  assumes "0 \<le> x" and "x < 4294967296"
  shows "\<exists>img. setMSN_image (Finite x) = Some img"
proof -
  from setMSN_stages [OF assms] obtain A B tmp where
    "setMSN_A (Finite x) = Some A" "setMSN_B (Finite x) A = Some B" "setMSN_tmp B = Some tmp"
    by blast
  from setMSN_image_stages [OF this] show ?thesis by blast
qed

lemma update_vfo0_simps:
  "vfo (update_vfo0 s) = vfo s" "xtal (update_vfo0 s) = xtal s"
  "issued (bus (update_vfo0 s)) = issued (bus s) @
     [Write SI_SYNTH_MS0 (setMSI_buf (msi (vfo s 0)) (rDivToCode (ri (vfo s 0)))),
      Write SI_SYNTH_MS1 (setMSI_buf (msi (vfo s 0)) (rDivToCode (ri (vfo s 0)))),
      Write SI_CLK0_PHOFF [0],
      Write SI_CLK1_PHOFF
        [if phase (vfo s 0) = PH090 \<or> phase (vfo s 0) = PH270 then msi (vfo s 0) else 0],
      Write SI_CLK0_CTL [0x4D],
      Write SI_CLK1_CTL [if phase (vfo s 0) = PH180 \<or> phase (vfo s 0) = PH270 then 0x5D else 0x4D]]"
  by (simp_all add: update_vfo0_def Let_def wr_simps setMSI_simps SI_CLK_SRC_MS_def SI_CLK_INT_def
      SI_CLK_IDRV_4mA_def SI_CLK_INV_def)

lemma update_vfo1_simps:
  "vfo (update_vfo1 s) = vfo s" "xtal (update_vfo1 s) = xtal s"
  "issued (bus (update_vfo1 s)) = issued (bus s) @
     [Write SI_SYNTH_MS2 (setMSI_buf (msi (vfo s 1)) (rDivToCode (ri (vfo s 1)))),
      Write SI_CLK2_CTL [0x6D]]"
  by (simp_all add: update_vfo1_def Let_def wr_simps setMSI_simps SI_CLK_SRC_MS_def SI_CLK_INT_def
      SI_CLK_IDRV_4mA_def SI_CLK_PLLB_def)

lemma setMSN_image_30: "setMSN_image (Finite 30) = Some [66, 64, 0, 13, 0, 240, 0, 0]"
proof -
  have fb: "\<lfloor>fl (fl 0 * 1000000)\<rfloor> = 0" by code_simp
  have a: "setMSN_A (Finite 30) = Some 30"
    using setMSN_A_eq [of 30] by simp
  have b: "setMSN_B (Finite 30) 30 = Some 0"
    using setMSN_B_eq(1) [of 30] by (simp add: fb)
  have t: "setMSN_tmp 0 = Some 0"
    using setMSN_tmp_eq [of 0] by simp
  show ?thesis
    using setMSN_image_stages [OF a b t] by (simp add: setMSN_buf_def SI_PLL_C_def)
qed

lemma invalid_index_silent:
  assumes "1 < vfoIdx"
  shows "setFreq vfoIdx f s = s" and "update vfoIdx s = Some s" and "setPhase vfoIdx ph s = s"
  using assms by (auto simp: setFreq_def update_def setPhase_def)

lemma invalid_phase_silent: "vfoIdx \<noteq> 0 \<or> 3 < ph \<Longrightarrow> setPhase vfoIdx ph s = s"
  by (simp add: setPhase_def)

lemma enable_nonzero_index: "vfoIdx \<noteq> 0 \<Longrightarrow> enable vfoIdx en s = enable 1 en s"
  by (simp add: enable_def)

lemma enable_simps:
  "issued (bus (enable vfoIdx en s)) = issued (bus s) @
     [Read SI_CLK_OE,
      Write SI_CLK_OE
        [let oe = (if answers (bus s) then regs (bus s) SI_CLK_OE else 0xFF)
         in if vfoIdx = 0 then (if en then oe AND NOT 0x03 else oe OR 0x03)
            else (if en then oe AND NOT 0x04 else oe OR 0x04)]]"
  "vfo (enable vfoIdx en s) = vfo s" "xtal (enable vfoIdx en s) = xtal s"
  by (simp_all add: enable_def rd_def wr_def transmit_def Let_def)

lemma update_preserves:
  assumes "vfoIdx \<le> 1" and "setMSN_image (msn (vfo s (unat vfoIdx))) = Some img"
  shows "\<exists>s'. update vfoIdx s = Some s' \<and> vfo s' = vfo s \<and> xtal s' = xtal s"
proof -
  from setMSN_simps [OF assms(2), of "if vfoIdx = 0 then 0 else 1" s] obtain s1 where
    "setMSN (if vfoIdx = 0 then 0 else 1) (msn (vfo s (unat vfoIdx))) s = Some s1"
    "vfo s1 = vfo s" "xtal s1 = xtal s"
    by blast
  moreover have "\<not> 1 < vfoIdx" using assms(1) by simp
  ultimately show ?thesis
    by (simp add: update_def resetPLL_def wr_simps update_vfo0_simps update_vfo1_simps)
qed

lemma begin_installs_defaults:
  "\<exists>s'. begin_si5351 s = Some s' \<and> xtal s' = xtal s \<and>
     vfo s' 0 = \<lparr>freq = 7074000, phase = PH270, ri = 1, msi = 106, msn = Finite 30\<rparr> \<and>
     vfo s' 1 = \<lparr>freq = 10000000, phase = PH000, ri = 1, msi = 76, msn = Finite 30\<rparr>"
proof -
  define s0 where "s0 =
    (wr SI_CLK2_CTL (SI_CLK_SRC_MS OR SI_CLK_PLLB OR SI_CLK_IDRV_4mA)
      (wr SI_CLK1_CTL (SI_CLK_SRC_MS OR SI_CLK_IDRV_4mA)
        (wr SI_CLK0_CTL (SI_CLK_SRC_MS OR SI_CLK_IDRV_4mA) (wr SI_SS_EN 0x00 s))))"
  define s1 where "s1 = s0\<lparr>vfo := (vfo s0)
      (0 := \<lparr>freq = 7074000, phase = PH270, ri = 1, msi = 106, msn = Finite 30\<rparr>,
       1 := \<lparr>freq = 10000000, phase = PH000, ri = 1, msi = 76, msn = Finite 30\<rparr>)\<rparr>"
  have x1: "xtal s1 = xtal s" by (simp add: s1_def s0_def wr_simps)
  have m0: "setMSN_image (msn (vfo s1 (unat (0 :: u8)))) = Some [66, 64, 0, 13, 0, 240, 0, 0]"
    by (simp add: s1_def setMSN_image_30)
  from update_preserves [OF _ m0] obtain s2 where
    s2: "update 0 s1 = Some s2" "vfo s2 = vfo s1" "xtal s2 = xtal s1" by auto
  have m1: "setMSN_image (msn (vfo s2 (unat (1 :: u8)))) = Some [66, 64, 0, 13, 0, 240, 0, 0]"
    by (simp add: s2 s1_def setMSN_image_30)
  from update_preserves [OF _ m1] obtain s3 where
    s3: "update 1 s2 = Some s3" "vfo s3 = vfo s2" "xtal s3 = xtal s2" by auto
  have b: "begin_si5351 s = Some (enable 1 False (enable 0 True s3))"
    unfolding begin_si5351_def Let_def s0_def [symmetric] s1_def [symmetric]
    by (simp add: s2 s3)
  show ?thesis
    by (simp add: b enable_simps s3 s2 x1) (simp add: s1_def)
qed

text \<open>
  In \<^verbatim>\<open>example.cpp\<close> the call \<^verbatim>\<open>setFreq(0, 7074000)\<close> follows \<^verbatim>\<open>begin()\<close>: the stored
  target is 7 074 000 Hz already, the planner is skipped and the divider stays 106.
\<close>

lemma example_setFreq_skipped:
  "\<exists>s. begin_si5351 example_vfo = Some s \<and> setFreq 0 7074000 s = s \<and>
     unat (msi (vfo s 0)) = 106"
proof -
  from begin_installs_defaults [of example_vfo] obtain s where
    "begin_si5351 example_vfo = Some s"
    "vfo s 0 = \<lparr>freq = 7074000, phase = PH270, ri = 1, msi = 106, msn = Finite 30\<rparr>"
    by blast
  then show ?thesis
    by (simp add: setFreq_def evaluate_def)
qed

section \<open>The multiplier of a planned state\<close>

lemma spec_msDivider_top: "175000000 < f \<Longrightarrow> spec_msDivider f = 4"
proof -
  assume f: "175000000 < f"
  have "700000000 div f \<le> 700000000 div 175000001"
    using f by (intro div_le_mono2) simp_all
  then have "700000000 div f \<le> 3" by simp
  then have "max 4 (700000000 div f) = 4" by simp
  then show ?thesis
    using f by (simp add: spec_msDivider_def spec_rDivider_def)
qed

lemma planned_product_bound:
  assumes "f < 4294967296"
  shows "spec_msDivider f * spec_rDivider f * f < 34359738368"
proof -
  consider (a) "f < 3000000" | (c) "3000000 \<le> f" "f < 6000000"
    | (d) "6000000 \<le> f" "f \<le> 175000000" | (e) "175000000 < f"
    by linarith
  then show ?thesis
  proof cases
    case a
    then show ?thesis by (simp add: spec_msDivider_def spec_rDivider_def)
  next
    case c
    then show ?thesis by (simp add: spec_msDivider_def spec_rDivider_def)
  next
    case d
    then have "f * spec_msDivider f \<le> 900000000"
      using spec_msDivider_high(1) [OF d(1)] by simp
    moreover have "spec_rDivider f = 1" using d by (simp add: spec_rDivider_def)
    ultimately show ?thesis by (simp add: mult.commute)
  next
    case e
    then have "spec_rDivider f = 1" by (simp add: spec_rDivider_def)
    then show ?thesis using assms by (simp add: spec_msDivider_top [OF e])
  qed
qed

lemma dbl_of_nat:
  assumes "n < 9007199254740992"
  shows "dbl (of_nat n) = Finite (of_nat n)"
proof -
  have "fl (of_int (int n)) = of_int (int n)"
    using assms by (intro fl_of_int) simp
  then have e: "fl (of_nat n) = of_nat n" by simp
  have "rat_of_nat n < 9007199254740992" using assms by simp
  then show ?thesis
    by (simp add: dbl_def e)
qed

lemma planned_msn_resolution:
  assumes "xtal' \<noteq> 0"
  shows "\<exists>y. evaluate_msn (evaluate_msi f (evaluate_ri f)) (evaluate_ri f) f xtal' = Finite y \<and>
     \<bar>y - of_nat (spec_msDivider (unat f) * spec_rDivider (unat f) * unat f) / of_nat (unat xtal')\<bar>
       \<le> 1 / 1048576"
proof -
  define M where "M = spec_msDivider (unat f)"
  define R where "R = spec_rDivider (unat f)"
  define P where "P = M * R * unat f"
  define X where "X = unat xtal'"
  have X0: "0 < X" using assms by (simp add: X_def unat_gt_0)
  have uM: "unat (evaluate_msi f (evaluate_ri f)) = M"
    by (simp add: M_def planned_msi)
  have uR: "unat (evaluate_ri f) = R"
    by (simp add: R_def evaluate_ri_unat spec_rDivider_def)
  have Pb: "P < 34359738368"
    unfolding P_def M_def R_def using unat_u32_bound [of f] by (intro planned_product_bound)
  have MR: "M * R < 9007199254740992"
  proof -
    have "M \<le> 126" by (simp add: M_def spec_msDivider_even)
    moreover have "R \<le> 128" by (simp add: R_def spec_rDivider_def)
    ultimately have "M * R \<le> 126 * 128" by (rule mult_le_mono)
    then show ?thesis by simp
  qed
  have d1: "dmul (u8_to_double (evaluate_msi f (evaluate_ri f))) (u32_to_double (evaluate_ri f))
      = Finite (of_nat (M * R))"
    using dbl_of_nat [OF MR] by (simp add: u8_to_double_def u32_to_double_def uM uR)
  have d2: "dmul (Finite (of_nat (M * R))) (u32_to_double f) = Finite (of_nat P)"
    using dbl_of_nat [of P] Pb by (simp add: u32_to_double_def P_def)
  define q :: rat where "q = of_nat P / of_nat X"
  have q0: "0 \<le> q" by (simp add: q_def)
  have near: "\<bar>fl q - q\<bar> \<le> 1 / 1048576"
  proof (cases "X = 1 \<or> P = 0")
    case True
    then have "q = of_int (int P)" by (auto simp: q_def)
    moreover have "fl (of_int (int P)) = of_int (int P)"
      using Pb by (intro fl_of_int) simp
    ultimately show ?thesis by simp
  next
    case False
    then have X2: "2 \<le> X" and P1: "0 < P" using X0 by simp_all
    have "rat_of_nat P < 34359738368" using Pb by simp
    moreover have "(2 :: rat) \<le> of_nat X" using X2 by simp
    ultimately have "rat_of_nat P < 17179869184 * of_nat X" by linarith
    then have qb: "q < 17179869184"
      using X0 by (simp add: q_def pos_divide_less_eq)
    have qn: "q \<noteq> 0" using P1 X0 by (simp add: q_def)
    have "\<bar>fl q - q\<bar> \<le> 2 powi (34 - 54)"
      using qn q0 qb by (intro fl_near) simp_all
    moreover have "(2 :: rat) powi (34 - 54) = 1 / 1048576"
      by (simp add: power_int_minus_divide)
    ultimately show ?thesis by simp
  qed
  have "q \<le> of_nat P"
  proof -
    have "rat_of_nat P * 1 \<le> of_nat P * of_nat X"
      using X0 by (intro mult_left_mono) simp_all
    then show ?thesis using X0 by (simp add: q_def pos_divide_le_eq)
  qed
  moreover have "rat_of_nat P < 34359738368" using Pb by simp
  ultimately have "\<bar>fl q\<bar> \<le> 34359738369"
    using near q0 by linarith
  then have d3: "dbl q = Finite (fl q)" by (simp add: dbl_def)
  have "evaluate_msn (evaluate_msi f (evaluate_ri f)) (evaluate_ri f) f xtal'
      = ddiv (Finite (of_nat P)) (u32_to_double xtal')"
    by (simp only: evaluate_msn_def d1 d2)
  also have "u32_to_double xtal' = Finite (of_nat X)"
    by (simp only: u32_to_double_def X_def)
  also have "ddiv (Finite (of_nat P)) (Finite (of_nat X)) = dbl q"
    using X0 by (simp add: q_def)
  also note d3
  finally have "evaluate_msn (evaluate_msi f (evaluate_ri f)) (evaluate_ri f) f xtal'
      = Finite (fl q)" .
  with near show ?thesis
    by (auto simp: q_def P_def M_def R_def X_def)
qed

section \<open>Claims about the session\<close>

text \<open>
  Claim C6. Whenever the stored multiplier of VFO0 can be converted (it is finite and from 0
  up to \<open>2 ^ 32\<close>), \<^verbatim>\<open>update(0)\<close> succeeds, leaves the VFO state as it is, and issues, after
  the PLL image, the same MultiSynth image to the blocks of CLK0 and CLK1, the phase offset 0
  to CLK0, to CLK1 the phase offset \<open>msi\<close> when the phase is 90 or 270 degrees and 0
  otherwise, the control byte of CLK0 without the inversion bit, that of CLK1 with the
  inversion bit exactly when the phase is 180 or 270 degrees, and the PLL reset.
\<close>

theorem update_vfo0_writes:
  "msn (vfo s 0) = Finite x \<Longrightarrow> 0 \<le> x \<Longrightarrow> x < 4294967296 \<Longrightarrow>
   \<exists>img s'. setMSN_image (Finite x) = Some img \<and> update 0 s = Some s' \<and>
     vfo s' = vfo s \<and> xtal s' = xtal s \<and>
     (let v = vfo s 0;
          ms = setMSI_buf (msi v) (rDivToCode (ri v));
          phoff1 = (if phase v = PH090 \<or> phase v = PH270 then msi v else 0);
          clk1ctl = (if phase v = PH180 \<or> phase v = PH270 then 0x5D else 0x4D)
      in issued (bus s') = issued (bus s) @
           [Write SI_SYNTH_PLLA img, Write SI_SYNTH_MS0 ms, Write SI_SYNTH_MS1 ms,
            Write SI_CLK0_PHOFF [0], Write SI_CLK1_PHOFF [phoff1],
            Write SI_CLK0_CTL [0x4D], Write SI_CLK1_CTL [clk1ctl],
            Write SI_PLL_RESET [0xA0]]
       \<and> (clk1ctl AND SI_CLK_INV \<noteq> 0) = (phase v = PH180 \<or> phase v = PH270))"
proof -
  assume m: "msn (vfo s 0) = Finite x" and x0: "0 \<le> x" and x32: "x < 4294967296"
  from setMSN_image_defined [OF x0 x32] obtain img where
    img: "setMSN_image (Finite x) = Some img" by blast
  from setMSN_simps [OF img, of 0 s] obtain s1 where
    s1: "setMSN 0 (Finite x) s = Some s1" and v1: "vfo s1 = vfo s" and x1: "xtal s1 = xtal s"
    and i1: "issued (bus s1) = issued (bus s) @ [Write SI_SYNTH_PLLA img]"
    by auto
  define s' where "s' = resetPLL (update_vfo0 s1)"
  have u: "update 0 s = Some s'"
    by (simp add: update_def m s1 s'_def)
  have vs: "vfo s' = vfo s" "xtal s' = xtal s"
    by (simp_all add: s'_def resetPLL_def wr_simps update_vfo0_simps v1 x1)
  have tr: "issued (bus s') = issued (bus s) @
     [Write SI_SYNTH_PLLA img,
      Write SI_SYNTH_MS0 (setMSI_buf (msi (vfo s 0)) (rDivToCode (ri (vfo s 0)))),
      Write SI_SYNTH_MS1 (setMSI_buf (msi (vfo s 0)) (rDivToCode (ri (vfo s 0)))),
      Write SI_CLK0_PHOFF [0],
      Write SI_CLK1_PHOFF
        [if phase (vfo s 0) = PH090 \<or> phase (vfo s 0) = PH270 then msi (vfo s 0) else 0],
      Write SI_CLK0_CTL [0x4D],
      Write SI_CLK1_CTL [if phase (vfo s 0) = PH180 \<or> phase (vfo s 0) = PH270 then 0x5D else 0x4D],
      Write SI_PLL_RESET [0xA0]]"
    by (simp add: s'_def resetPLL_def wr_simps update_vfo0_simps v1 i1)
  have inv: "((if phase (vfo s 0) = PH180 \<or> phase (vfo s 0) = PH270 then 0x5D else 0x4D :: u8)
       AND SI_CLK_INV \<noteq> 0) = (phase (vfo s 0) = PH180 \<or> phase (vfo s 0) = PH270)"
    by (simp add: SI_CLK_INV_def)
  show ?thesis
    unfolding Let_def
  proof (intro exI conjI)
    show "setMSN_image (Finite x) = Some img" by (rule img)
    show "update 0 s = Some s'" by (rule u)
    show "vfo s' = vfo s" "xtal s' = xtal s" by (rule vs)+
  qed (rule tr, rule inv)
qed

theorem update_vfo0_writes_witness:
  "msn (vfo quadrature_vfo 0) = Finite 30 \<and> (0 :: rat) \<le> 30 \<and> (30 :: rat) < 4294967296 \<and>
   (\<exists>s'. update 0 quadrature_vfo = Some s' \<and>
      issued (bus s') =
        [Write 26 [66, 64, 0, 13, 0, 240, 0, 0],
         Write 42 [0, 1, 0, 51, 0, 0, 0, 0], Write 50 [0, 1, 0, 51, 0, 0, 0, 0],
         Write 165 [0], Write 166 [106], Write 16 [0x4D], Write 17 [0x4D], Write 177 [0xA0]])"
proof -
  have h1: "msn (vfo quadrature_vfo 0) = Finite 30" by (simp add: quadrature_vfo_def)
  have h2: "(0 :: rat) \<le> 30" and h3: "(30 :: rat) < 4294967296" by simp_all
  have ms: "setMSI_buf 106 (rDivToCode 1) = [0, 1, 0, 51, 0, 0, 0, 0]"
    by (simp add: setMSI_buf_def rDivToCode_def)
  from update_vfo0_writes [OF h1 h2 h3]
  have "\<exists>s'. update 0 quadrature_vfo = Some s' \<and>
      issued (bus s') =
        [Write 26 [66, 64, 0, 13, 0, 240, 0, 0],
         Write 42 [0, 1, 0, 51, 0, 0, 0, 0], Write 50 [0, 1, 0, 51, 0, 0, 0, 0],
         Write 165 [0], Write 166 [106], Write 16 [0x4D], Write 17 [0x4D], Write 177 [0xA0]]"
    by (auto simp: Let_def setMSN_image_30 quadrature_vfo_def example_vfo_def Si5351_def ms PH090_def
        PH180_def PH270_def SI_SYNTH_PLLA_def SI_SYNTH_MS0_def SI_SYNTH_MS1_def SI_CLK0_PHOFF_def
        SI_CLK1_PHOFF_def SI_CLK0_CTL_def SI_CLK1_CTL_def SI_PLL_RESET_def)
  with h1 h2 h3 show ?thesis by blast
qed

text \<open>
  Claim C9 does not hold for \<^verbatim>\<open>enable\<close>: it has no check of the index, and every index
  other than 0 is taken for VFO1. On the freshly constructed driver \<^verbatim>\<open>enable(2, false)\<close>
  reads the output-enable register and writes it back with the bit of CLK2 set. The other
  three functions return at once on an index above 1 (\<open>invalid_index_silent\<close>), and
  \<^verbatim>\<open>setPhase\<close> on a phase above 3 or an index other than 0 (\<open>invalid_phase_silent\<close>).
\<close>

theorem enable_invalid_index_writes:
  "issued (bus (enable 2 False example_vfo)) = [Read SI_CLK_OE, Write SI_CLK_OE [0x04]] \<and>
   regs (bus example_vfo) SI_CLK_OE = 0 \<and>
   regs (bus (enable 2 False example_vfo)) SI_CLK_OE = 0x04"
  by (simp add: enable_def rd_def wr_def transmit_def example_vfo_def Si5351_def)

text \<open>
  Claim C3 does not hold for the defaults of bring-up: after \<^verbatim>\<open>begin()\<close> with a 25 MHz
  crystal VFO0 holds the multiplier 30, MultiSynth divider 106, R divider 1 and target
  7 074 000 Hz, so \<open>pllMultiplier * crystalFrequencyHz\<close> is 750 000 000 and
  \<open>msDivider * rDivider * targetFrequencyHz\<close> is 749 844 000: 156 000 Hz apart. A planned
  state with a nonzero crystal frequency keeps the two within \<open>2 powi -20\<close> of the
  multiplier (\<open>planned_msn_resolution\<close>).
\<close>

theorem begin_defaults_mismatch:
  "\<exists>s. begin_si5351 example_vfo = Some s \<and>
     (let v = vfo s 0
      in msn v = Finite 30 \<and> unat (xtal s) = 25000000 \<and>
         unat (msi v) * unat (ri v) * unat (freq v) = 749844000 \<and>
         (30 :: rat) * 25000000 - 749844000 = 156000)"
proof -
  from begin_installs_defaults [of example_vfo] obtain s where
    "begin_si5351 example_vfo = Some s" "xtal s = xtal example_vfo"
    "vfo s 0 = \<lparr>freq = 7074000, phase = PH270, ri = 1, msi = 106, msn = Finite 30\<rparr>"
    by blast
  then show ?thesis
    by (simp add: example_vfo_def Si5351_def)
qed

end
